theory Spec2Isabelle
  imports Main "HOL-Library.Word" "HOL-Library.Sublist"
begin

unbundle bit_operations_syntax

section \<open>Data model of the collaboration relay (collab\_editor2.c)\<close>

text \<open>
  The relay keeps one \<^verbatim>\<open>Client\<close> struct per WebSocket connection in a singly linked
  list headed by the global \<^verbatim>\<open>clients\<close>.  The list is modelled as a HOL list in link
  order (head first); the \<^verbatim>\<open>next\<close> pointer and the per-client mutex object are
  represented by the list structure and by lock events.  A session thread holds a
  pointer to its own struct; since a socket descriptor is open for exactly as long as
  its struct is linked, the pointer is identified with the socket number.

  Strings are the contents of C strings (the bytes before the terminating NUL).
  A write past the end of a fixed-size array, pointer arithmetic on a NULL result of
  \<^verbatim>\<open>strchr\<close>/\<^verbatim>\<open>strstr\<close> and the overflow of the \<^verbatim>\<open>int\<close> length in
  \<^verbatim>\<open>ws_read_frame\<close> are undefined behaviour in C; the model returns an \<open>error\<close>
  value at exactly those points and says nothing about what the compiled program
  does from there on.  Output to stdout and failure of \<^verbatim>\<open>malloc\<close> are not modelled.
\<close>

type_synonym byte = "8 word"

record client =
  socket :: int
  username :: string
  current_file :: string
  cursor_pos :: int
  color :: string
  active :: int

datatype error = Buffer_overrun | Null_pointer | Int_overflow | Use_after_free

datatype event =
    Lock_clients_mutex
  | Unlock_clients_mutex
  | Lock_client int
  | Unlock_client int
  | Send int "byte list"
  | Close_socket int

definition BUFFER_SIZE :: nat where
  "BUFFER_SIZE = 65536"

definition INT_MAX :: nat where
  "INT_MAX = 2147483647"

definition colors :: "string list" where
  "colors = [''#FF6B6B'', ''#4ECDC4'', ''#45B7D1'', ''#FFA07A'', ''#98D8C8'',
             ''#F7DC6F'', ''#BB8FCE'', ''#85C1E2'', ''#FF69B4'', ''#20B2AA'']"

section \<open>Frame codec\<close>

text \<open>Conversions between \<^verbatim>\<open>char\<close> and \<^verbatim>\<open>unsigned char\<close>.\<close>

definition byte_of_char :: "char \<Rightarrow> byte" where
  "byte_of_char c = of_char c"

definition char_of_byte :: "byte \<Rightarrow> char" where
  "char_of_byte b = char_of (unat b)"

text \<open>
  \<^verbatim>\<open>ws_send_frame\<close>, lines 66-85: the header written into
  \<^verbatim>\<open>unsigned char frame[BUFFER_SIZE]\<close> for a message of \<open>len\<close> bytes.  In the third
  tier the source shifts the 32-bit \<^verbatim>\<open>int len\<close> by 56, 48, \<open>\<dots>\<close>, 0 bits.  A shift of
  an \<^verbatim>\<open>int\<close> by 32 bits or more is undefined in C; the compiled code takes the shift
  count modulo 32, so the four low bytes of \<open>len\<close> are written twice (for \<open>len = 65536\<close>
  the bytes \<open>00 01 00 00 00 01 00 00\<close>).  That tier never yields a frame, because its
  payload cannot fit the buffer (see \<open>ws_frame\<close>).
\<close>

definition ws_frame_header :: "nat \<Rightarrow> byte list" where
  "ws_frame_header len =
     (if len < 126 then [0x81, of_nat len]
      else if len < 65536 then
        [0x81, 126, of_nat (drop_bit 8 len AND 0xFF), of_nat (len AND 0xFF)]
      else [0x81, 127] @
           map (\<lambda>i. of_nat (drop_bit ((i * 8) mod 32) len AND 0xFF)) (rev [0..<8]))"

text \<open>
  The bytes handed to \<^verbatim>\<open>send\<close>: header followed by the \<^verbatim>\<open>memcpy\<close> of the message.
  The copy writes \<open>frame[idx .. idx + len - 1]\<close>, which lies inside the array only when
  \<open>idx + len \<le> BUFFER_SIZE\<close>.  The argument is a C string, so its length is what
  \<^verbatim>\<open>strlen\<close> returns.
\<close>

definition ws_frame :: "string \<Rightarrow> error + byte list" where
  "ws_frame message =
     (let len = length message; header = ws_frame_header len
      in if BUFFER_SIZE < length header + len then Inl Buffer_overrun
         else Inr (header @ map byte_of_char message))"

definition ws_send_frame :: "int \<Rightarrow> string \<Rightarrow> error + event list" where
  "ws_send_frame sock message =
     (case ws_frame message of
        Inl e \<Rightarrow> Inl e
      | Inr frame \<Rightarrow> Inr [Send sock frame])"

text \<open>
  \<^verbatim>\<open>ws_read_frame\<close>, lines 305-321: the optional mask and the payload.  \<open>buf\<close> holds
  the \<open>bytes\<close> bytes that \<^verbatim>\<open>recv\<close> delivered.  \<^verbatim>\<open>idx + len\<close> is an \<^verbatim>\<open>int\<close> addition.
\<close>

definition read_payload :: "byte list \<Rightarrow> bool \<Rightarrow> nat \<Rightarrow> nat \<Rightarrow> error + string option" where
  "read_payload buf masked idx0 len =
     (if masked \<and> length buf < idx0 + 4 then Inr None
      else
        let mask = take 4 (drop idx0 buf);
            idx = (if masked then idx0 + 4 else idx0)
        in if INT_MAX < idx + len then Inl Int_overflow
           else if length buf < idx + len then Inr None
           else Inr (Some (map (\<lambda>i. char_of_byte (if masked then buf ! (idx + i) XOR mask ! (i mod 4)
                                                     else buf ! (idx + i)))
                               [0..<len])))"

text \<open>
  \<^verbatim>\<open>ws_read_frame\<close>, lines 283-303.  The result \<open>Inr None\<close> is the NULL return;
  \<open>Inr (Some m)\<close> is the allocated message of \<open>len\<close> bytes.  In the 64-bit tier the
  accumulation \<^verbatim>\<open>len = (len << 8) | buffer[2 + i]\<close> runs on a 32-bit \<^verbatim>\<open>int\<close>; it
  overflows exactly when the declared length exceeds \<open>INT_MAX\<close>.
\<close>

definition ws_read_frame :: "byte list \<Rightarrow> error + string option" where
  "ws_read_frame buf =
     (if length buf < 2 then Inr None
      else if buf ! 0 AND 0x0F = 0x8 then Inr None
      else
        let masked = (buf ! 1 AND 0x80 \<noteq> 0);
            len = unat (buf ! 1 AND 0x7F)
        in if len = 126 then
             (if length buf < 4 then Inr None
              else read_payload buf masked 4 (push_bit 8 (unat (buf ! 2)) OR unat (buf ! 3)))
           else if len = 127 then
             (if length buf < 10 then Inr None
              else
                let len64 = foldl (\<lambda>l b. push_bit 8 l OR unat b) 0 (take 8 (drop 2 buf))
                in if INT_MAX < len64 then Inl Int_overflow
                   else read_payload buf masked 10 len64)
           else read_payload buf masked 2 len)"

section \<open>C library functions used by the message handler\<close>

text \<open>
  \<^verbatim>\<open>strstr\<close> and \<^verbatim>\<open>strchr\<close> return a pointer into the searched string, modelled
  as the suffix starting at the match, or NULL (\<open>None\<close>).  The source only searches for
  non-NUL characters.
\<close>

fun strstr :: "string \<Rightarrow> string \<Rightarrow> string option" where
  "strstr [] needle = (if needle = [] then Some [] else None)"
| "strstr (x # xs) needle =
     (if prefix needle (x # xs) then Some (x # xs) else strstr xs needle)"

fun strchr :: "string \<Rightarrow> char \<Rightarrow> string option" where
  "strchr [] c = None"
| "strchr (x # xs) c = (if x = c then Some (x # xs) else strchr xs c)"

text \<open>
  The idiom \<^verbatim>\<open>strncpy(dst, src, e - src); dst[e - src] = '\0';\<close> for a destination
  array of \<open>cap\<close> bytes, where \<open>e\<close> points into \<open>src\<close>.  The terminator is written at
  index \<open>e - src\<close>, which must be below \<open>cap\<close>.
\<close>

definition copy_until :: "nat \<Rightarrow> string \<Rightarrow> string \<Rightarrow> error + string" where
  "copy_until cap src e =
     (let n = length src - length e
      in if cap \<le> n then Inl Buffer_overrun else Inr (take n src))"

text \<open>
  The same idiom where \<open>e\<close> is the unchecked result of \<^verbatim>\<open>strchr(src, '"')\<close>.
\<close>

definition copy_field :: "nat \<Rightarrow> string \<Rightarrow> error + string" where
  \<open>copy_field cap src =
     (case strchr src (CHR ''"'') of
        None \<Rightarrow> Inl Null_pointer
      | Some e \<Rightarrow> copy_until cap src e)\<close>

text \<open>\<^verbatim>\<open>snprintf\<close> into an array of \<open>cap\<close> bytes keeps at most \<open>cap - 1\<close> characters.\<close>

definition snprintf :: "nat \<Rightarrow> string \<Rightarrow> string" where
  "snprintf cap s = take (cap - 1) s"

text \<open>The conversion \<^verbatim>\<open>%d\<close>.\<close>

fun show_nat :: "nat \<Rightarrow> string" where
  "show_nat n =
     (if n < 10 then [char_of (48 + n)]
      else show_nat (n div 10) @ [char_of (48 + n mod 10)])"

declare show_nat.simps [simp del]

definition show_int :: "int \<Rightarrow> string" where
  "show_int i = (if i < 0 then CHR ''-'' # show_nat (nat (- i)) else show_nat (nat i))"

text \<open>
  \<^verbatim>\<open>atoi\<close> as the C library computes it, \<^verbatim>\<open>(int) strtol(s, NULL, 10)\<close>: optional
  white space, optional sign, decimal digits; a value outside the range of \<^verbatim>\<open>long\<close> (64
  bits) is clamped to that range, and the conversion to \<^verbatim>\<open>int\<close> keeps the low 32 bits as
  a signed number.  (The C standard leaves \<^verbatim>\<open>atoi\<close> undefined for a value that does not
  fit \<^verbatim>\<open>int\<close>; the handler goes on with the value described here.)
\<close>

definition isspace :: "char \<Rightarrow> bool" where
  "isspace c = (c \<in> set [CHR 0x20, CHR 0x09, CHR 0x0A, CHR 0x0B, CHR 0x0C, CHR 0x0D])"

definition isdigit :: "char \<Rightarrow> bool" where
  "isdigit c = (48 \<le> (of_char c :: nat) \<and> (of_char c :: nat) \<le> 57)"

fun atoi_digits :: "string \<Rightarrow> nat \<Rightarrow> nat" where
  "atoi_digits [] acc = acc"
| "atoi_digits (c # cs) acc =
     (if isdigit c then atoi_digits cs (acc * 10 + (of_char c - 48)) else acc)"

definition atoi :: "string \<Rightarrow> int" where
  "atoi s =
     (let t = dropWhile isspace s;
          neg = (take 1 t = ''-'');
          digits = (if take 1 t = ''-'' \<or> take 1 t = ''+'' then drop 1 t else t);
          v = int (atoi_digits digits 0);
          l = (if neg then max (- (2 ^ 63)) (- v) else min (2 ^ 63 - 1) v)
      in signed_take_bit 31 l)"

section \<open>Session registry\<close>

text \<open>
  \<^verbatim>\<open>add_client\<close>, lines 36-45.  \<open>c\<close> is the struct as \<^verbatim>\<open>websocket_server\<close> filled it
  (socket, placeholder user name, empty file, cursor 0; the other fields still hold
  whatever \<^verbatim>\<open>malloc\<close> returned) and \<open>r\<close> is the value of \<^verbatim>\<open>rand()\<close>.
\<close>

definition add_client :: "client \<Rightarrow> nat \<Rightarrow> client list \<Rightarrow> client list \<times> event list" where
  "add_client c r cs =
     (c\<lparr>active := 1, color := colors ! (r mod 10)\<rparr> # cs,
      [Lock_clients_mutex, Unlock_clients_mutex])"

text \<open>
  \<^verbatim>\<open>remove_client\<close>, lines 47-63: the \<^verbatim>\<open>while (*curr)\<close> loop unlinks the first
  struct whose socket matches, closes its socket and stops.
\<close>

fun unlink :: "int \<Rightarrow> client list \<Rightarrow> client list \<times> event list" where
  "unlink sock [] = ([], [])"
| "unlink sock (c # cs) =
     (if socket c = sock then (cs, [Close_socket (socket c)])
      else (c # fst (unlink sock cs), snd (unlink sock cs)))"

definition remove_client :: "int \<Rightarrow> client list \<Rightarrow> client list \<times> event list" where
  "remove_client sock cs =
     (fst (unlink sock cs), [Lock_clients_mutex] @ snd (unlink sock cs) @ [Unlock_clients_mutex])"

text \<open>
  A session thread reaches its own struct through the pointer \<^verbatim>\<open>client\<close>.  The struct
  is alive exactly while it is linked in the registry.
\<close>

definition update_client :: "int \<Rightarrow> (client \<Rightarrow> client) \<Rightarrow> client list \<Rightarrow> client list" where
  "update_client sock f cs = map (\<lambda>c. if socket c = sock then f c else c) cs"

section \<open>Broadcast dispatcher\<close>

text \<open>\<^verbatim>\<open>broadcast_message\<close>, line 98: the guard that selects a target.\<close>

definition is_target :: "int \<Rightarrow> client \<Rightarrow> bool" where
  "is_target exclude_socket cur = (socket cur \<noteq> exclude_socket \<and> active cur \<noteq> 0)"

text \<open>Lines 97-105: the walk along the linked list.\<close>

fun broadcast_loop :: "string \<Rightarrow> int \<Rightarrow> client list \<Rightarrow> error + event list" where
  "broadcast_loop message exclude_socket [] = Inr []"
| "broadcast_loop message exclude_socket (cur # rest) =
     (if is_target exclude_socket cur then
        (case ws_send_frame (socket cur) message of
           Inl e \<Rightarrow> Inl e
         | Inr sent \<Rightarrow>
             (case broadcast_loop message exclude_socket rest of
                Inl e \<Rightarrow> Inl e
              | Inr ev \<Rightarrow>
                  Inr ([Lock_client (socket cur)] @ sent @ [Unlock_client (socket cur)] @ ev)))
      else broadcast_loop message exclude_socket rest)"

text \<open>Lines 93-108: the walk runs between locking and unlocking \<^verbatim>\<open>clients_mutex\<close>.\<close>

definition broadcast_message :: "string \<Rightarrow> int \<Rightarrow> client list \<Rightarrow> error + event list" where
  "broadcast_message message exclude_socket cs =
     (case broadcast_loop message exclude_socket cs of
        Inl e \<Rightarrow> Inl e
      | Inr ev \<Rightarrow> Inr ([Lock_clients_mutex] @ ev @ [Unlock_clients_mutex]))"

text \<open>The network sends recorded in a trace, in order.\<close>

fun sends :: "event list \<Rightarrow> (int \<times> byte list) list" where
  "sends [] = []"
| "sends (Send s frame # es) = (s, frame) # sends es"
| "sends (e # es) = sends es"

text \<open>
  The number of network sends a trace performs while \<^verbatim>\<open>clients_mutex\<close> is held;
  \<open>held\<close> tells whether the mutex is held when the trace starts.
\<close>

fun sends_while_held :: "bool \<Rightarrow> event list \<Rightarrow> nat" where
  "sends_while_held held [] = 0"
| "sends_while_held held (Lock_clients_mutex # es) = sends_while_held True es"
| "sends_while_held held (Unlock_clients_mutex # es) = sends_while_held False es"
| "sends_while_held held (Send s frame # es) =
     (if held then 1 else 0) + sends_while_held held es"
| "sends_while_held held (e # es) = sends_while_held held es"

text \<open>What the walk does for one target: lock it, send the frame, unlock it.\<close>

definition target_events :: "byte list \<Rightarrow> client \<Rightarrow> event list" where
  "target_events frame c =
     [Lock_client (socket c), Send (socket c) frame, Unlock_client (socket c)]"

section \<open>Connection handler\<close>

text \<open>
  Access to the session's own struct through the \<^verbatim>\<open>client\<close> pointer: reading it,
  and updating it under \<^verbatim>\<open>client->lock\<close>.
\<close>

definition load_client :: "int \<Rightarrow> client list \<Rightarrow> error + client" where
  "load_client sock cs =
     (case find (\<lambda>c. socket c = sock) cs of
        None \<Rightarrow> Inl Use_after_free
      | Some c \<Rightarrow> Inr c)"

definition store_client ::
  "int \<Rightarrow> (client \<Rightarrow> client) \<Rightarrow> client list \<Rightarrow> error + client list \<times> event list" where
  "store_client sock f cs =
     (case find (\<lambda>c. socket c = sock) cs of
        None \<Rightarrow> Inl Use_after_free
      | Some c \<Rightarrow> Inr (update_client sock f cs, [Lock_client sock, Unlock_client sock]))"

text \<open>
  The chain of \<^verbatim>\<open>strstr(message, "\"type\":\"...\"")\<close> tests of lines 371, 384, 416
  and 446: the first test that finds its pattern decides how the message is handled.
\<close>

datatype kind = Join | Content_change | Cursor_move | File_change

definition message_kind :: "string \<Rightarrow> kind option" where
  \<open>message_kind message =
     (if strstr message ''"type":"join"'' \<noteq> None then Some Join
      else if strstr message ''"type":"content_change"'' \<noteq> None then Some Content_change
      else if strstr message ''"type":"cursor_move"'' \<noteq> None then Some Cursor_move
      else if strstr message ''"type":"file_change"'' \<noteq> None then Some File_change
      else None)\<close>

text \<open>Lines 372-382.\<close>

definition handle_join :: "int \<Rightarrow> string \<Rightarrow> client list \<Rightarrow> error + client list \<times> event list" where
  \<open>handle_join sock message cs =
     (case strstr message ''"username":"'' of
        None \<Rightarrow> Inr (cs, [])
      | Some p \<Rightarrow>
          (let name = drop 12 p
           in case strchr name (CHR ''"'') of
                None \<Rightarrow> Inr (cs, [])
              | Some e \<Rightarrow>
                  (case copy_until 64 name e of
                     Inl err \<Rightarrow> Inl err
                   | Inr u \<Rightarrow> store_client sock (\<lambda>c. c\<lparr>username := u\<rparr>) cs)))\<close>

text \<open>
  Lines 385-414.  \<^verbatim>\<open>uname\<close> has 64 bytes, \<^verbatim>\<open>fname\<close> 256 and \<^verbatim>\<open>forward_msg\<close>
  \<open>BUFFER_SIZE\<close>; \<^verbatim>\<open>strncat\<close> and \<^verbatim>\<open>strcat\<close> append without a bound.
\<close>

definition handle_content_change ::
  "int \<Rightarrow> string \<Rightarrow> client list \<Rightarrow> error + client list \<times> event list" where
  \<open>handle_content_change sock message cs =
     (case (strstr message ''"username":"'', strstr message ''"file":"'',
            strstr message ''"content":"'') of
        (Some pu, Some pf, Some pc) \<Rightarrow>
          (case copy_field 64 (drop 12 pu) of
             Inl err \<Rightarrow> Inl err
           | Inr uname \<Rightarrow>
               (case copy_field 256 (drop 8 pf) of
                  Inl err \<Rightarrow> Inl err
                | Inr fname \<Rightarrow>
                    (let content = drop 11 pc;
                         cend = (case strstr content ''","'' of
                                   Some e \<Rightarrow> Some e
                                 | None \<Rightarrow> strstr content ''"}'')
                     in case cend of
                          None \<Rightarrow> Inl Null_pointer
                        | Some e \<Rightarrow>
                            (let forward_msg =
                                   snprintf BUFFER_SIZE
                                     (''{"type":"content_update","username":"'' @ uname @
                                      ''","file":"'' @ fname @ ''","content":"'') @
                                   take (length content - length e) content @ ''"}''
                             in if BUFFER_SIZE \<le> length forward_msg then Inl Buffer_overrun
                                else (case broadcast_message forward_msg sock cs of
                                        Inl err \<Rightarrow> Inl err
                                      | Inr ev \<Rightarrow> Inr (cs, ev))))))
      | _ \<Rightarrow> Inr (cs, []))\<close>

text \<open>Lines 417-444.  \<^verbatim>\<open>cursor_msg\<close> has 512 bytes.\<close>

definition handle_cursor_move ::
  "int \<Rightarrow> string \<Rightarrow> client list \<Rightarrow> error + client list \<times> event list" where
  \<open>handle_cursor_move sock message cs =
     (case (strstr message ''"position":'', strstr message ''"file":"'',
            strstr message ''"username":"'') of
        (Some pp, Some pf, Some pu) \<Rightarrow>
          (let position = atoi (drop 11 pp)
           in case copy_field 256 (drop 8 pf) of
                Inl err \<Rightarrow> Inl err
              | Inr f \<Rightarrow>
                  (case copy_field 64 (drop 12 pu) of
                     Inl err \<Rightarrow> Inl err
                   | Inr u \<Rightarrow>
                       (case store_client sock
                               (\<lambda>c. c\<lparr>cursor_pos := position, current_file := f, username := u\<rparr>) cs of
                          Inl err \<Rightarrow> Inl err
                        | Inr (cs', locks) \<Rightarrow>
                            (case load_client sock cs' of
                               Inl err \<Rightarrow> Inl err
                             | Inr c \<Rightarrow>
                                 (let cursor_msg =
                                        snprintf 512
                                          (''{"type":"cursor_update","username":"'' @ username c @
                                           ''","position":'' @ show_int position @
                                           '',"color":"'' @ color c @
                                           ''","file":"'' @ current_file c @ ''"}'')
                                  in case broadcast_message cursor_msg sock cs' of
                                       Inl err \<Rightarrow> Inl err
                                     | Inr ev \<Rightarrow> Inr (cs', locks @ ev))))))
      | _ \<Rightarrow> Inr (cs, []))\<close>

text \<open>Lines 447-455.\<close>

definition handle_file_change ::
  "int \<Rightarrow> string \<Rightarrow> client list \<Rightarrow> error + client list \<times> event list" where
  \<open>handle_file_change sock message cs =
     (case strstr message ''"file":"'' of
        None \<Rightarrow> Inr (cs, [])
      | Some p \<Rightarrow>
          (case copy_field 256 (drop 8 p) of
             Inl err \<Rightarrow> Inl err
           | Inr f \<Rightarrow> store_client sock (\<lambda>c. c\<lparr>current_file := f\<rparr>) cs))\<close>

text \<open>Lines 371-456: what the loop does with a decoded message.\<close>

definition handle_message ::
  "int \<Rightarrow> string \<Rightarrow> client list \<Rightarrow> error + client list \<times> event list" where
  "handle_message sock message cs =
     (case message_kind message of
        Some Join \<Rightarrow> handle_join sock message cs
      | Some Content_change \<Rightarrow> handle_content_change sock message cs
      | Some Cursor_move \<Rightarrow> handle_cursor_move sock message cs
      | Some File_change \<Rightarrow> handle_file_change sock message cs
      | None \<Rightarrow> Inr (cs, []))"

text \<open>
  Lines 360-459: one iteration of \<^verbatim>\<open>while (1)\<close>.  The input is what \<^verbatim>\<open>recv\<close>
  returned: \<open>None\<close> for an error (\<open>bytes < 0\<close>), otherwise the \<open>bytes\<close> bytes read, the
  empty list standing for end of stream (\<open>bytes = 0\<close>).  The handler reads the decoded
  message as a C string, up to its first NUL.
\<close>

datatype loop_ctl = Continue | Break

definition c_str :: "string \<Rightarrow> string" where
  "c_str s = takeWhile (\<lambda>c. c \<noteq> CHR 0x00) s"

definition loop_body ::
  "int \<Rightarrow> byte list option \<Rightarrow> client list \<Rightarrow> error + loop_ctl \<times> client list \<times> event list" where
  "loop_body sock input cs =
     (case input of
        None \<Rightarrow> Inr (Break, cs, [])
      | Some buffer \<Rightarrow>
          if buffer = [] then Inr (Break, cs, [])
          else (case ws_read_frame buffer of
                  Inl err \<Rightarrow> Inl err
                | Inr None \<Rightarrow> Inr (Continue, cs, [])
                | Inr (Some message) \<Rightarrow>
                    (case handle_message sock (c_str message) cs of
                       Inl err \<Rightarrow> Inl err
                     | Inr (cs', ev) \<Rightarrow> Inr (Continue, cs', ev))))"

text \<open>
  The loop over the successive results of \<^verbatim>\<open>recv\<close>.  The flag of the result tells
  whether the loop was left by \<^verbatim>\<open>break\<close>; when the inputs run out first the thread is
  still blocked in \<^verbatim>\<open>recv\<close>.
\<close>

fun read_loop ::
  "int \<Rightarrow> byte list option list \<Rightarrow> client list \<Rightarrow> error + bool \<times> client list \<times> event list" where
  "read_loop sock [] cs = Inr (False, cs, [])"
| "read_loop sock (input # inputs) cs =
     (case loop_body sock input cs of
        Inl err \<Rightarrow> Inl err
      | Inr (Break, cs', ev) \<Rightarrow> Inr (True, cs', ev)
      | Inr (Continue, cs', ev) \<Rightarrow>
          (case read_loop sock inputs cs' of
             Inl err \<Rightarrow> Inl err
           | Inr (left, cs'', ev') \<Rightarrow> Inr (left, cs'', ev @ ev')))"

text \<open>Lines 461-466: the leave message and the removal from the registry.\<close>

definition teardown :: "int \<Rightarrow> client list \<Rightarrow> error + client list \<times> event list" where
  \<open>teardown sock cs =
     (case load_client sock cs of
        Inl err \<Rightarrow> Inl err
      | Inr c \<Rightarrow>
          (let leave_msg = snprintf 512 (''{"type":"user_left","username":"'' @ username c @ ''"}'')
           in case broadcast_message leave_msg sock cs of
                Inl err \<Rightarrow> Inl err
              | Inr ev \<Rightarrow> Inr (fst (remove_client sock cs), ev @ snd (remove_client sock cs))))\<close>

section \<open>Message texts\<close>

text \<open>
  The payload of a frame is a JSON object (section 6 of the specification).  An object
  is given by its members in order.  The value of a member is a string, of which the
  model keeps the body as it stands between the two quotes (escapes included), or
  another JSON value (a number, a literal, an array, a nested object), of which the
  model keeps the text.  \<open>object_msg\<close> is the serialisation without white space.
\<close>

datatype jvalue = Str string | Other string

definition value_text :: "jvalue \<Rightarrow> string" where
  \<open>value_text v = (case v of Str s \<Rightarrow> ''"'' @ s @ ''"'' | Other t \<Rightarrow> t)\<close>

definition member :: "string \<times> jvalue \<Rightarrow> string" where
  \<open>member kv = ''"'' @ fst kv @ ''":'' @ value_text (snd kv)\<close>

fun members :: "(string \<times> jvalue) list \<Rightarrow> string" where
  "members [] = []"
| "members [kv] = member kv"
| "members (kv # kvs) = member kv @ '','' @ members kvs"

definition object_msg :: "(string \<times> jvalue) list \<Rightarrow> string" where
  "object_msg kvs = ''{'' @ members kvs @ ''}''"

text \<open>
  In the body of a JSON string every double quote is preceded by a backslash;
  \<open>escaped_after p s\<close> says so of \<open>s\<close>, where \<open>p\<close> is the character in front of \<open>s\<close>.
  A message holds no NUL.  A member is flat when its name contains no double quote and
  its value is a string, or another value whose text contains no double quote (a
  number or a literal, but no nested object with member names of its own).
\<close>

fun escaped_after :: "char \<Rightarrow> string \<Rightarrow> bool" where
  "escaped_after p [] = True"
| \<open>escaped_after p (x # xs) = ((x = CHR ''"'' \<longrightarrow> p = CHR 0x5C) \<and> escaped_after x xs)\<close>

definition string_body :: "string \<Rightarrow> bool" where
  \<open>string_body s = (escaped_after (CHR ''"'') s \<and> CHR 0x00 \<notin> set s)\<close>

definition flat_member :: "string \<times> jvalue \<Rightarrow> bool" where
  \<open>flat_member kv =
     (CHR ''"'' \<notin> set (fst kv) \<and> CHR 0x00 \<notin> set (fst kv) \<and>
      (case snd kv of
         Str s \<Rightarrow> string_body s
       | Other t \<Rightarrow> CHR ''"'' \<notin> set t \<and> CHR 0x00 \<notin> set t))\<close>

text \<open>
  The wire schema of the specification: the kind of a message is named by its member
  \<open>type\<close>, and each kind requires the members listed here.  A message lacks a required
  field when one of the names its kind requires is not the name of any of its members.
\<close>

definition kind_named :: "string \<Rightarrow> kind option" where
  "kind_named v =
     (if v = ''join'' then Some Join
      else if v = ''content_change'' then Some Content_change
      else if v = ''cursor_move'' then Some Cursor_move
      else if v = ''file_change'' then Some File_change
      else None)"

definition schema_fields :: "kind \<Rightarrow> string list" where
  "schema_fields k =
     (case k of
        Join \<Rightarrow> [''username'']
      | Content_change \<Rightarrow> [''username'', ''file'', ''content'']
      | Cursor_move \<Rightarrow> [''username'', ''file'', ''position'']
      | File_change \<Rightarrow> [''file''])"

definition schema_kind :: "(string \<times> jvalue) list \<Rightarrow> kind option" where
  "schema_kind kvs =
     (case map_of kvs ''type'' of
        Some (Str v) \<Rightarrow> kind_named v
      | _ \<Rightarrow> None)"

definition lacks_required_field :: "(string \<times> jvalue) list \<Rightarrow> bool" where
  "lacks_required_field kvs =
     (case schema_kind kvs of
        None \<Rightarrow> False
      | Some k \<Rightarrow> list_ex (\<lambda>name. name \<notin> fst ` set kvs) (schema_fields k))"

text \<open>
  What the handlers look at instead: the text of the message.  The kind is decided
  by the first of four patterns that occurs anywhere in the text (lines 371, 384, 416
  and 446), and a field counts as present when its pattern occurs anywhere in the text
  (lines 372, 386-388, 417-419 and 447).  A message lacks a field pattern when a
  pattern its kind tests occurs nowhere in it.
\<close>

definition type_pattern :: "kind \<Rightarrow> string" where
  \<open>type_pattern k =
     (case k of
        Join \<Rightarrow> ''"type":"join"''
      | Content_change \<Rightarrow> ''"type":"content_change"''
      | Cursor_move \<Rightarrow> ''"type":"cursor_move"''
      | File_change \<Rightarrow> ''"type":"file_change"'')\<close>

definition field_patterns :: "kind \<Rightarrow> string list" where
  \<open>field_patterns k =
     (case k of
        Join \<Rightarrow> [''"username":"'']
      | Content_change \<Rightarrow> [''"username":"'', ''"file":"'', ''"content":"'']
      | Cursor_move \<Rightarrow> [''"position":'', ''"file":"'', ''"username":"'']
      | File_change \<Rightarrow> [''"file":"''])\<close>

definition text_kind :: "string \<Rightarrow> kind option" where
  "text_kind message =
     (if sublist (type_pattern Join) message then Some Join
      else if sublist (type_pattern Content_change) message then Some Content_change
      else if sublist (type_pattern Cursor_move) message then Some Cursor_move
      else if sublist (type_pattern File_change) message then Some File_change
      else None)"

definition lacks_field_pattern :: "string \<Rightarrow> bool" where
  "lacks_field_pattern message =
     (case text_kind message of
        None \<Rightarrow> False
      | Some k \<Rightarrow> list_ex (\<lambda>pattern. \<not> sublist pattern message) (field_patterns k))"

text \<open>
  The pattern for the member named \<open>k\<close> whose value text starts with \<open>w\<close>; the names
  of the schema are plain; and the text that follows a member of an object whose
  remaining members are \<open>post\<close>.
\<close>

definition field_pattern :: "string \<Rightarrow> string \<Rightarrow> string" where
  \<open>field_pattern k w = ''"'' @ k @ ''":'' @ w\<close>

definition plain :: "string \<Rightarrow> bool" where
  \<open>plain k =
     (k \<noteq> [] \<and>
      (\<forall>x \<in> set k. x \<noteq> CHR ''"'' \<and> x \<noteq> CHR '':'' \<and> x \<noteq> CHR '','' \<and> x \<noteq> CHR ''}'' \<and>
         x \<noteq> CHR 0x5C))\<close>

definition after :: "(string \<times> jvalue) list \<Rightarrow> string" where
  "after post = (if post = [] then ''}'' else CHR '','' # members post @ ''}'')"



text \<open>The inbound file\_change message with file \<open>f\<close>.\<close>

definition file_change_msg :: "string \<Rightarrow> string" where
  \<open>file_change_msg f = ''{"type":"file_change","file":"'' @ f @ ''"}''\<close>

section \<open>Reachable registries\<close>

text \<open>
  The registries of the executions in which every step so far had defined behaviour:
  the server starts with an empty registry; \<^verbatim>\<open>websocket_server\<close> adds a struct for a
  freshly accepted socket (a descriptor that no linked struct holds); any session
  thread runs an iteration of its loop; any session thread runs its teardown.  A step
  that ends in an \<open>error\<close> is not a transition: the compiled server goes on from such a
  step in a state the model does not describe (see the last section), so these are
  not all the registries the server can be in.  The second component records, per
  socket, the palette index drawn when the struct was added.
\<close>

inductive reachable :: "client list \<Rightarrow> (int \<Rightarrow> nat option) \<Rightarrow> bool" where
  start: "reachable [] (\<lambda>s. None)"
| accept: "reachable cs chosen \<Longrightarrow> socket c \<notin> socket ` set cs \<Longrightarrow>
           reachable (fst (add_client c r cs)) (chosen (socket c \<mapsto> r mod 10))"
| iteration: "reachable cs chosen \<Longrightarrow> loop_body sock input cs = Inr (ctl, cs', ev) \<Longrightarrow>
              reachable cs' chosen"
| leave: "reachable cs chosen \<Longrightarrow> teardown sock cs = Inr (cs', ev) \<Longrightarrow>
          reachable cs' chosen"

text \<open>
  The fields of a struct that no message handler writes, and the invariant of the
  reachable registries: sockets are pairwise distinct, every struct is active and
  carries the palette colour recorded for its socket.
\<close>

definition ident :: "client \<Rightarrow> int \<times> string \<times> int" where
  "ident c = (socket c, color c, active c)"

definition registry_inv :: "client list \<Rightarrow> (int \<Rightarrow> nat option) \<Rightarrow> bool" where
  "registry_inv cs chosen =
     (distinct (map socket cs) \<and>
      (\<forall>c \<in> set cs. active c = 1 \<and>
         (\<exists>k<10. chosen (socket c) = Some k \<and> color c = colors ! k)))"

text \<open>
  A concrete registry for the examples: the sessions A, B and C have joined in that
  order on the sockets 4, 5 and 6 and drew the palette entries 0, 1 and 2.
\<close>

definition session :: "int \<Rightarrow> string \<Rightarrow> nat \<Rightarrow> client" where
  "session sock name k =
     \<lparr>socket = sock, username = name, current_file = [], cursor_pos = 0,
      color = colors ! k, active = 1\<rparr>"

definition abc_registry :: "client list" where
  "abc_registry = [session 6 ''C'' 2, session 5 ''B'' 1, session 4 ''A'' 0]"

definition abc_chosen :: "int \<Rightarrow> nat option" where
  "abc_chosen = [4 \<mapsto> 0, 5 \<mapsto> 1, 6 \<mapsto> 2]"




definition flat_cursor_move :: "(string \<times> jvalue) list" where
  "flat_cursor_move =
     [(''type'', Str ''cursor_move''), (''position'', Other ''7''), (''file'', Str ''notes.md'')]"

definition nested_cursor_move :: "(string \<times> jvalue) list" where
  \<open>nested_cursor_move =
     [(''type'', Str ''cursor_move''), (''position'', Other ''7''), (''file'', Str ''notes.md''),
      (''meta'', Other ''{"username":"Eve"}'')]\<close>

definition nested_join :: "(string \<times> jvalue) list" where
  \<open>nested_join =
     [(''type'', Str ''file_change''), (''meta'', Other ''{"type":"join","username":"Eve"}'')]\<close>

section \<open>Properties of the frame codec\<close>

lemma ws_frame_header_length:
  "length (ws_frame_header n) = (if n < 126 then 2 else if n < 65536 then 4 else 10)"
  by (simp add: ws_frame_header_def)

lemma char_of_byte_of_char [simp]: "char_of_byte (byte_of_char c) = c"
proof -
  have "unat (of_nat (of_char c) :: byte) = of_char c"
    by (simp add: unat_of_nat)
  then show ?thesis
    by (simp add: char_of_byte_def byte_of_char_def of_nat_of_char)
qed

lemma byte_and_7F: "unat ((b::byte) AND 0x7F) = unat b mod 128"
proof -
  have e: "(0x7F :: byte) = mask 7"
    by (simp add: mask_eq_exp_minus_1)
  show ?thesis
    unfolding e
    by (simp add: unsigned_take_bit_eq take_bit_eq_mod unat_mod flip: take_bit_eq_mask)
qed

lemma byte_and_80: "((b::byte) AND 0x80 = 0) = (unat b < 128)"
proof -
  have lt: "unat b < 256"
    using unsigned_less [of b] by simp
  have "(b AND 0x80 = 0) = (b AND 2 ^ 7 = 0)"
    by simp
  also have "\<dots> = (\<not> bit b 7)"
    by (rule and_exp_eq_0_iff_not_bit)
  also have "\<dots> = (\<not> bit (unat b) 7)"
    by (simp add: bit_unsigned_iff)
  also have "\<dots> = (unat b < 128)"
  proof (cases "unat b < 128")
    case True
    then show ?thesis by (simp add: bit_iff_odd)
  next
    case False
    with lt have "unat b div 128 = 1"
      by (simp add: div_nat_eqI)
    with False show ?thesis by (simp add: bit_iff_odd)
  qed
  finally show ?thesis .
qed

lemma unat_byte_of_nat: "n < 256 \<Longrightarrow> unat (of_nat n :: byte) = n"
  by (simp add: unat_of_nat)

lemma shift8_or: "b < 256 \<Longrightarrow> push_bit 8 (a::nat) OR b = a * 256 + b"
proof -
  assume "b < 256"
  then have tb: "take_bit 8 b = b"
    by (simp add: take_bit_nat_eq_self)
  have "push_bit 8 a + take_bit 8 b = push_bit 8 a OR take_bit 8 b"
    by (rule disjunctive_add) (auto simp: bit_simps)
  then show ?thesis
    by (simp add: tb push_bit_eq_mult)
qed

lemma nat_and_FF: "(n::nat) AND 0xFF = n mod 256"
  using take_bit_eq_mask [of 8 n] by (simp add: take_bit_eq_mod mask_eq_exp_minus_1)

lemma length16_bytes:
  "n < 65536 \<Longrightarrow>
   push_bit 8 (unat (of_nat (drop_bit 8 n AND 0xFF) :: byte)) OR unat (of_nat (n AND 0xFF) :: byte) = n"
  by (simp add: nat_and_FF drop_bit_eq_div unat_of_nat shift8_or)

lemma map_nth_offset:
  "k + n \<le> length xs \<Longrightarrow> map (\<lambda>i. f (xs ! (k + i))) [0..<n] = map f (take n (drop k xs))"
  by (rule nth_equalityI) auto

lemma read_payload_unmasked:
  "idx + length m \<le> INT_MAX \<Longrightarrow> length hdr = idx \<Longrightarrow>
   read_payload (hdr @ map byte_of_char m) False idx (length m) = Inr (Some m)"
  by (simp add: read_payload_def map_nth_offset comp_def)

text \<open>
  Every message whose frame fits the frame buffer is decoded back to itself.  With the
  four header bytes of the 16-bit tier that is every message of at most 65532 bytes.
\<close>

lemma ws_roundtrip:
  assumes "length m \<le> 65532"
  shows "\<exists>fr. ws_frame m = Inr fr \<and> ws_read_frame fr = Inr (Some m)"
proof (cases "length m < 126")
  case True
  then have "ws_frame m = Inr ([0x81, of_nat (length m)] @ map byte_of_char m)"
    by (simp add: ws_frame_def ws_frame_header_def BUFFER_SIZE_def)
  moreover have "ws_read_frame ([0x81, of_nat (length m)] @ map byte_of_char m) = Inr (Some m)"
    using True read_payload_unmasked [of 2 m "[0x81, of_nat (length m)]"]
    by (simp add: ws_read_frame_def byte_and_7F byte_and_80 unat_byte_of_nat INT_MAX_def)
  ultimately show ?thesis by simp
next
  case False
  let ?h = "[0x81, 126, of_nat (drop_bit 8 (length m) AND 0xFF),
             of_nat (length m AND 0xFF)] :: byte list"
  from False assms have "ws_frame m = Inr (?h @ map byte_of_char m)"
    by (simp add: ws_frame_def ws_frame_header_def BUFFER_SIZE_def Let_def)
  moreover have "ws_read_frame (?h @ map byte_of_char m) = Inr (Some m)"
    using False assms read_payload_unmasked [of 4 m ?h] length16_bytes [of "length m"]
    by (simp add: ws_read_frame_def byte_and_7F byte_and_80 INT_MAX_def Let_def)
  ultimately show ?thesis by simp
qed

lemma ws_frame_fits:
  "length m \<le> 65532 \<Longrightarrow> ws_frame m = Inr (ws_frame_header (length m) @ map byte_of_char m)"
  by (simp add: ws_frame_def ws_frame_header_length BUFFER_SIZE_def Let_def)

lemma short_frame:
  "length t < 126 \<Longrightarrow> ws_frame t = Inr ([0x81, of_nat (length t)] @ map byte_of_char t)"
  by (simp add: ws_frame_def ws_frame_header_def BUFFER_SIZE_def)



text \<open>
  Claim C2.  The round trip \<open>Decode (Encode text) = text\<close> is claimed for every text
  payload, in particular for the lengths 65535 and 65536.  At those lengths
  \<^verbatim>\<open>ws_send_frame\<close> copies the payload past the end of its \<open>BUFFER_SIZE\<close>-byte frame
  array (4 + 65535 and 10 + 65536 bytes), so no frame is produced that could be decoded.
\<close>

theorem ws_frame_overruns_at_tier_boundary:
  "ws_frame (replicate 65535 (CHR ''a'')) = Inl Buffer_overrun \<and>
   ws_frame (replicate 65536 (CHR ''a'')) = Inl Buffer_overrun"
  by (simp add: ws_frame_def ws_frame_header_length BUFFER_SIZE_def Let_def)


section \<open>Properties of the registry\<close>

lemma unlink_absent: "sock \<notin> socket ` set cs \<Longrightarrow> unlink sock cs = (cs, [])"
  by (induction cs) auto

lemma unlink_sockets: "set (map socket (fst (unlink sock cs))) \<subseteq> set (map socket cs)"
  by (induction cs) auto

lemma unlink_subset: "set (fst (unlink sock cs)) \<subseteq> set cs"
  by (induction cs) auto

lemma unlink_removes:
  "distinct (map socket cs) \<Longrightarrow> sock \<notin> socket ` set (fst (unlink sock cs))"
  by (induction cs) auto

lemma unlink_distinct:
  "distinct (map socket cs) \<Longrightarrow> distinct (map socket (fst (unlink sock cs)))"
proof (induction cs)
  case Nil
  then show ?case by simp
next
  case (Cons c cs)
  then show ?case
    using unlink_sockets [of sock cs] by auto
qed

lemma abc_sockets: "map socket abc_registry = [6, 5, 4]"
  by (simp add: abc_registry_def session_def)

text \<open>
  Claim C7.  \<^verbatim>\<open>remove_client\<close> with a socket that no registered struct holds leaves
  the registry as it is, closes nothing and returns normally; and in a registry whose
  sockets are pairwise distinct, removing the same socket a second time changes nothing
  more than the first removal did.
\<close>

theorem remove_client_idempotent:
  "(sock \<notin> socket ` set cs \<longrightarrow>
      remove_client sock cs = (cs, [Lock_clients_mutex, Unlock_clients_mutex])) \<and>
   (distinct (map socket cs) \<longrightarrow>
      fst (remove_client sock (fst (remove_client sock cs))) = fst (remove_client sock cs))"
  by (simp add: remove_client_def unlink_absent unlink_removes)

theorem remove_client_idempotent_witness:
  "9 \<notin> socket ` set abc_registry \<and>
   remove_client 9 abc_registry = (abc_registry, [Lock_clients_mutex, Unlock_clients_mutex]) \<and>
   distinct (map socket abc_registry) \<and>
   fst (remove_client 5 (fst (remove_client 5 abc_registry))) = fst (remove_client 5 abc_registry) \<and>
   fst (remove_client 5 abc_registry) = [session 6 ''C'' 2, session 4 ''A'' 0]"
proof -
  have 1: "9 \<notin> socket ` set abc_registry"
    by (simp add: abc_registry_def session_def)
  have 2: "distinct (map socket abc_registry)"
    by (simp add: abc_sockets)
  have 3: "fst (remove_client 5 abc_registry) = [session 6 ''C'' 2, session 4 ''A'' 0]"
    by (simp add: remove_client_def abc_registry_def session_def)
  from remove_client_idempotent [of 9 abc_registry] remove_client_idempotent [of 5 abc_registry] 1 2 3
  show ?thesis by simp
qed

section \<open>Properties of the message handlers\<close>

lemma update_client_ident:
  "(\<And>c. ident (f c) = ident c) \<Longrightarrow> map ident (update_client sock f cs) = map ident cs"
  by (simp add: update_client_def)

lemma store_client_ident:
  "(\<And>c. ident (f c) = ident c) \<Longrightarrow> store_client sock f cs = Inr (cs', ev) \<Longrightarrow>
   map ident cs' = map ident cs"
  by (auto simp: store_client_def update_client_ident split: option.splits)

lemma handle_join_ident:
  "handle_join sock m cs = Inr (cs', ev) \<Longrightarrow> map ident cs' = map ident cs"
  by (auto simp: handle_join_def Let_def ident_def
           split: option.splits sum.splits elim!: store_client_ident [rotated])

lemma handle_content_change_registry:
  "handle_content_change sock m cs = Inr (cs', ev) \<Longrightarrow> cs' = cs"
  by (auto simp: handle_content_change_def Let_def split: option.splits sum.splits if_splits)

lemma handle_cursor_move_ident:
  "handle_cursor_move sock m cs = Inr (cs', ev) \<Longrightarrow> map ident cs' = map ident cs"
  by (auto simp: handle_cursor_move_def Let_def ident_def
           split: option.splits sum.splits prod.splits elim!: store_client_ident [rotated])

lemma handle_file_change_ident:
  "handle_file_change sock m cs = Inr (cs', ev) \<Longrightarrow> map ident cs' = map ident cs"
  by (auto simp: handle_file_change_def Let_def ident_def
           split: option.splits sum.splits elim!: store_client_ident [rotated])

lemma handle_message_ident:
  "handle_message sock m cs = Inr (cs', ev) \<Longrightarrow> map ident cs' = map ident cs"
  by (auto simp: handle_message_def split: option.splits kind.splits
           dest: handle_join_ident handle_content_change_registry handle_cursor_move_ident
                 handle_file_change_ident)

lemma loop_body_ident:
  "loop_body sock input cs = Inr (ctl, cs', ev) \<Longrightarrow> map ident cs' = map ident cs"
  by (auto simp: loop_body_def split: option.splits sum.splits if_splits prod.splits
           dest: handle_message_ident)

lemma teardown_registry:
  "teardown sock cs = Inr (cs', ev) \<Longrightarrow> cs' = fst (unlink sock cs)"
  by (auto simp: teardown_def remove_client_def Let_def split: sum.splits)

section \<open>Invariants of the reachable registries\<close>

lemma registry_inv_ident:
  assumes "map ident cs' = map ident cs" and "registry_inv cs chosen"
  shows "registry_inv cs' chosen"
proof -
  have "map fst (map ident cs') = map fst (map ident cs)"
    using assms(1) by simp
  then have s: "map socket cs' = map socket cs"
    by (simp add: ident_def comp_def)
  have "\<exists>c \<in> set cs. ident c = ident c'" if "c' \<in> set cs'" for c'
  proof -
    from that have "ident c' \<in> set (map ident cs')"
      by simp
    then have "ident c' \<in> set (map ident cs)"
      by (simp only: assms(1))
    then show ?thesis by auto
  qed
  then have "\<exists>c \<in> set cs. socket c = socket c' \<and> color c = color c' \<and> active c = active c'"
    if "c' \<in> set cs'" for c'
    using that by (fastforce simp: ident_def)
  with assms(2) s show ?thesis
    unfolding registry_inv_def by metis
qed

lemma registry_inv_unlink:
  assumes "registry_inv cs chosen"
  shows "registry_inv (fst (unlink sock cs)) chosen"
  using assms unlink_subset [of sock cs]
  by (auto simp: registry_inv_def unlink_distinct)

lemma registry_inv_add:
  assumes "registry_inv cs chosen" and "socket c \<notin> socket ` set cs"
  shows "registry_inv (fst (add_client c r cs)) (chosen (socket c \<mapsto> r mod 10))"
proof -
  from assms(2) have "\<forall>x \<in> set cs. socket x \<noteq> socket c"
    by (metis imageI)
  with assms show ?thesis
    by (auto simp: registry_inv_def add_client_def)
qed

lemma reachable_inv: "reachable cs chosen \<Longrightarrow> registry_inv cs chosen"
proof (induction rule: reachable.induct)
  case start
  show ?case by (simp add: registry_inv_def)
next
  case (accept cs chosen c r)
  from accept.IH accept.hyps(2) show ?case by (rule registry_inv_add)
next
  case (iteration cs chosen sock input ctl cs' ev)
  then show ?case by (blast intro: registry_inv_ident loop_body_ident)
next
  case (leave cs chosen sock cs' ev)
  from leave.hyps(2) have "cs' = fst (unlink sock cs)"
    by (rule teardown_registry)
  with leave.IH show ?case by (simp add: registry_inv_unlink)
qed

lemma reachable_distinct: "reachable cs chosen \<Longrightarrow> distinct (map socket cs)"
  by (drule reachable_inv) (simp add: registry_inv_def)

lemma reachable_active: "reachable cs chosen \<Longrightarrow> c \<in> set cs \<Longrightarrow> active c = 1"
  by (drule reachable_inv) (auto simp: registry_inv_def)

lemma reachable_color:
  "reachable cs chosen \<Longrightarrow> c \<in> set cs \<Longrightarrow>
   \<exists>k<10. chosen (socket c) = Some k \<and> color c = colors ! k"
  by (drule reachable_inv) (auto simp: registry_inv_def)

lemma reachable_targets:
  "reachable cs chosen \<Longrightarrow> filter (is_target S) cs = filter (\<lambda>c. socket c \<noteq> S) cs"
  by (rule filter_cong) (auto simp: is_target_def dest: reachable_active)

lemma add_session:
  "fst (add_client (session sock name k) k cs) = session sock name (k mod 10) # cs"
  by (simp add: add_client_def session_def)

lemma abc_reachable: "reachable abc_registry abc_chosen"
proof -
  have "reachable (fst (add_client (session 4 ''A'' 0) 0 [])) ((\<lambda>s. None)(4 \<mapsto> 0))"
    using reachable.accept [OF reachable.start, of "session 4 ''A'' 0" 0]
    by (simp add: session_def)
  then have 1: "reachable [session 4 ''A'' 0] [4 \<mapsto> 0]"
    by (simp add: add_session)
  have "reachable (fst (add_client (session 5 ''B'' 1) 1 [session 4 ''A'' 0])) [4 \<mapsto> 0, 5 \<mapsto> 1]"
    using reachable.accept [OF 1, of "session 5 ''B'' 1" 1]
    by (simp add: session_def)
  then have 2: "reachable [session 5 ''B'' 1, session 4 ''A'' 0] [4 \<mapsto> 0, 5 \<mapsto> 1]"
    by (simp add: add_session)
  have "reachable (fst (add_client (session 6 ''C'' 2) 2 [session 5 ''B'' 1, session 4 ''A'' 0]))
          [4 \<mapsto> 0, 5 \<mapsto> 1, 6 \<mapsto> 2]"
    using reachable.accept [OF 2, of "session 6 ''C'' 2" 2]
    by (simp add: session_def)
  then show ?thesis
    by (simp add: add_session abc_registry_def abc_chosen_def)
qed

text \<open>
  On every execution with defined behaviour the liveness flag of a registered struct
  stays 1: registration sets it and no handler, broadcast or teardown step writes it.
  The guard of \<^verbatim>\<open>broadcast_message\<close> then selects a registered struct exactly when
  its socket differs from the excluded one.
\<close>

lemma registered_sessions_stay_active:
  "reachable cs chosen \<Longrightarrow>
   \<forall>c \<in> set cs. active c = 1 \<and> (\<forall>S. is_target S c = (socket c \<noteq> S))"
  by (auto simp: is_target_def dest: reachable_active)

text \<open>
  On every execution with defined behaviour the colour of a registered struct is the
  palette entry whose index \<^verbatim>\<open>add_client\<close> drew when the struct was registered (the
  index recorded in \<open>chosen\<close>): \<^verbatim>\<open>add_client\<close> is the only statement that assigns
  the field.
\<close>

lemma color_fixed_at_registration:
  assumes "reachable cs chosen"
  shows "length colors = 10 \<and>
         color (hd (fst (add_client new r cs))) = colors ! (r mod 10) \<and>
         (\<forall>c \<in> set cs. \<exists>k<10. chosen (socket c) = Some k \<and> color c = colors ! k \<and>
                              color c \<in> set colors)"
proof -
  have n: "length colors = 10"
    by (simp add: colors_def)
  have a: "color (hd (fst (add_client new r cs))) = colors ! (r mod 10)"
    by (simp add: add_client_def)
  have "\<exists>k<10. chosen (socket c) = Some k \<and> color c = colors ! k \<and> color c \<in> set colors"
    if "c \<in> set cs" for c
  proof -
    from assms that obtain k where k: "k < 10" "chosen (socket c) = Some k" "color c = colors ! k"
      using reachable_color by blast
    with n have "colors ! k \<in> set colors"
      by simp
    with k show ?thesis by auto
  qed
  with n a show ?thesis by blast
qed

section \<open>Properties of the broadcast\<close>

lemma broadcast_loop_trace:
  "ws_frame m = Inr fr \<Longrightarrow>
   broadcast_loop m S cs = Inr (concat (map (target_events fr) (filter (is_target S) cs)))"
  by (induction cs) (simp_all add: ws_send_frame_def target_events_def)

lemma sends_append: "sends (xs @ ys) = sends xs @ sends ys"
  by (induction xs rule: sends.induct) simp_all

lemma sends_targets:
  "sends (concat (map (target_events fr) cs)) = map (\<lambda>c. (socket c, fr)) cs"
  by (induction cs) (simp_all add: target_events_def)

lemma sends_while_held_targets:
  "sends_while_held True (concat (map (target_events fr) cs) @ [Unlock_clients_mutex]) = length cs"
  by (induction cs) (simp_all add: target_events_def)

lemma hi_frame: "ws_frame ''hi'' = Inr ([0x81, 2] @ map byte_of_char ''hi'')"
  by (simp add: ws_frame_def ws_frame_header_def BUFFER_SIZE_def)







text \<open>
  Claim C3, as the code has it.  \<^verbatim>\<open>broadcast_message\<close> copies no snapshot: it locks
  \<^verbatim>\<open>clients_mutex\<close>, walks the live list and, for each target, locks the target,
  sends and unlocks the target, and it unlocks \<^verbatim>\<open>clients_mutex\<close> only after the last
  send.  Every send of the call is made while the registry lock is held.
\<close>

theorem broadcast_sends_under_registry_lock:
  assumes "ws_frame m = Inr fr"
  shows "broadcast_message m S cs =
           Inr ([Lock_clients_mutex] @
                concat (map (\<lambda>c. [Lock_client (socket c), Send (socket c) fr,
                                     Unlock_client (socket c)])
                            (filter (is_target S) cs)) @
                [Unlock_clients_mutex]) \<and>
         (\<exists>ev. broadcast_message m S cs = Inr ev \<and>
               sends_while_held False ev = length (sends ev))"
proof -
  have e: "(\<lambda>c. [Lock_client (socket c), Send (socket c) fr, Unlock_client (socket c)]) =
           target_events fr"
    by (simp add: target_events_def fun_eq_iff)
  have b: "broadcast_message m S cs =
             Inr ([Lock_clients_mutex] @
                  concat (map (target_events fr) (filter (is_target S) cs)) @
                  [Unlock_clients_mutex])"
    using broadcast_loop_trace [OF assms, of S cs] by (simp add: broadcast_message_def)
  show ?thesis
    unfolding e using b
    by (simp add: sends_while_held_targets sends_append sends_targets)
qed

theorem broadcast_sends_under_registry_lock_witness:
  "ws_frame ''hi'' = Inr ([0x81, 2] @ map byte_of_char ''hi'') \<and>
   broadcast_message ''hi'' 4 abc_registry =
     Inr [Lock_clients_mutex,
          Lock_client 6, Send 6 ([0x81, 2] @ map byte_of_char ''hi''), Unlock_client 6,
          Lock_client 5, Send 5 ([0x81, 2] @ map byte_of_char ''hi''), Unlock_client 5,
          Unlock_clients_mutex] \<and>
   (\<exists>ev. broadcast_message ''hi'' 4 abc_registry = Inr ev \<and>
         sends_while_held False ev = length (sends ev))"
  using broadcast_sends_under_registry_lock [OF hi_frame, of 4 abc_registry] hi_frame
  by (simp add: abc_registry_def session_def is_target_def)

text \<open>
  Claim C3, as stated, fails: when A (socket 4) broadcasts to the registry of A, B and
  C, both sends happen between locking and unlocking \<^verbatim>\<open>clients_mutex\<close>.
\<close>

theorem broadcast_holds_registry_lock_counterexample:
  "broadcast_message ''hi'' 4 abc_registry =
     Inr [Lock_clients_mutex,
          Lock_client 6, Send 6 ([0x81, 2] @ map byte_of_char ''hi''), Unlock_client 6,
          Lock_client 5, Send 5 ([0x81, 2] @ map byte_of_char ''hi''), Unlock_client 5,
          Unlock_clients_mutex] \<and>
   sends_while_held False
     [Lock_clients_mutex,
      Lock_client 6, Send 6 ([0x81, 2] @ map byte_of_char ''hi''), Unlock_client 6,
      Lock_client 5, Send 5 ([0x81, 2] @ map byte_of_char ''hi''), Unlock_client 5,
      Unlock_clients_mutex] = 2"
  by (simp add: broadcast_message_def ws_send_frame_def hi_frame abc_registry_def session_def
        is_target_def)

section \<open>Properties of the read loop\<close>

lemma loop_body_break:
  "loop_body sock input cs = Inr (Break, cs', ev) \<Longrightarrow> input = None \<or> input = Some []"
  by (auto simp: loop_body_def split: option.splits sum.splits if_splits prod.splits)

text \<open>
  Claim C4, as the code has it.  For a buffer whose first byte carries the close opcode
  \<^verbatim>\<open>ws_read_frame\<close> returns NULL, the value it also returns for an incomplete frame;
  the loop iteration then takes \<^verbatim>\<open>continue\<close>, changes nothing and the loop goes on
  with the next \<^verbatim>\<open>recv\<close>.  An iteration leaves the loop only when \<^verbatim>\<open>recv\<close> reported
  an error or the end of the stream.
\<close>

theorem close_frame_is_discarded:
  assumes "buffer \<noteq> []" and "buffer ! 0 AND 0x0F = 0x8"
  shows "ws_read_frame buffer = Inr None \<and>
         loop_body sock (Some buffer) cs = Inr (Continue, cs, []) \<and>
         read_loop sock (Some buffer # inputs) cs = read_loop sock inputs cs \<and>
         (\<forall>input cs' ev. loop_body sock input cs = Inr (Break, cs', ev) \<longrightarrow>
            input = None \<or> input = Some [])"
proof -
  have r: "ws_read_frame buffer = Inr None"
    using assms by (simp add: ws_read_frame_def)
  then have l: "loop_body sock (Some buffer) cs = Inr (Continue, cs, [])"
    using assms(1) by (simp add: loop_body_def)
  have "read_loop sock (Some buffer # inputs) cs = read_loop sock inputs cs"
    by (simp add: l split: sum.splits prod.splits)
  with r l show ?thesis
    using loop_body_break by blast
qed

theorem close_frame_is_discarded_witness:
  "[0x88, 0x00 :: byte] \<noteq> [] \<and> [0x88, 0x00 :: byte] ! 0 AND 0x0F = 0x8 \<and>
   ws_read_frame [0x88, 0x00] = Inr None \<and>
   loop_body 4 (Some [0x88, 0x00]) abc_registry = Inr (Continue, abc_registry, []) \<and>
   read_loop 4 [Some [0x88, 0x00], None] abc_registry = read_loop 4 [None] abc_registry"
proof -
  have 1: "[0x88, 0x00 :: byte] \<noteq> []" by simp
  have 2: "[0x88, 0x00 :: byte] ! 0 AND 0x0F = 0x8" by simp
  from close_frame_is_discarded [OF 1 2, of 4 abc_registry "[None]"] 1 2
  show ?thesis by blast
qed

text \<open>
  Claim C4, as stated, fails: the close frame \<open>[0x88, 0x00]\<close> is answered with the same
  NULL as the incomplete text frame \<open>[0x81, 0x05]\<close>, the iteration continues, and after
  it the loop has not been left.
\<close>

theorem close_frame_counterexample:
  "ws_read_frame [0x88, 0x00] = Inr None \<and> ws_read_frame [0x81, 0x05] = Inr None \<and>
   loop_body 4 (Some [0x88, 0x00]) abc_registry = Inr (Continue, abc_registry, []) \<and>
   read_loop 4 [Some [0x88, 0x00]] abc_registry = Inr (False, abc_registry, [])"
  by (simp add: ws_read_frame_def read_payload_def loop_body_def INT_MAX_def)


section \<open>Properties of the text functions\<close>

lemma strstr_sublist: "(strstr s p = None) = (\<not> sublist p s)"
  by (induction s) (simp_all add: sublist_Cons_right)

lemma strstr_skip: "q \<notin> set u \<Longrightarrow> strstr (u @ rest) (q # n) = strstr rest (q # n)"
  by (induction u) auto

lemma strchr_skip: "q \<notin> set u \<Longrightarrow> strchr (u @ q # r) q = Some (q # r)"
  by (induction u) auto

lemma prefix_token:
  "q \<notin> set a \<Longrightarrow> q \<notin> set u \<Longrightarrow> prefix (a @ q # b) (u @ q # r) = (a = u \<and> prefix b r)"
proof (induction a arbitrary: u)
  case Nil
  then show ?case by (cases u) auto
next
  case (Cons y a)
  then show ?case by (cases u) auto
qed

lemma token_join:
  \<open>CHR ''"'' \<notin> set u \<Longrightarrow>
   prefix ''type":"join"'' (u @ CHR ''"'' # r) = (u = ''type'' \<and> prefix '':"join"'' r)\<close>
  using prefix_token [of \<open>CHR ''"''\<close> "''type''" u \<open>'':"join"''\<close> r] by auto

lemma copy_field_token:
  \<open>CHR ''"'' \<notin> set u \<Longrightarrow> length u < cap \<Longrightarrow> copy_field cap (u @ CHR ''"'' # r) = Inr u\<close>
  by (simp add: copy_field_def strchr_skip copy_until_def)


lemma c_str_id: "CHR 0x00 \<notin> set s \<Longrightarrow> c_str s = s"
  by (auto simp: c_str_def takeWhile_eq_all_conv)

section \<open>Texts of flat objects\<close>

text \<open>
  In the text of an object whose members are flat, the pattern of a plain name occurs
  only where a member of that name starts: the patterns hold a double quote that
  follows a character other than a backslash, and in the text such a quote can only
  be one of the quotes that delimit names and string values.
\<close>

lemma escaped_after_quote:
  \<open>escaped_after p (k @ CHR ''"'' # r) \<Longrightarrow> k \<noteq> [] \<Longrightarrow> last k = CHR 0x5C\<close>
proof (induction k arbitrary: p)
  case Nil
  then show ?case by simp
next
  case (Cons a k)
  show ?case
  proof (cases k)
    case Nil
    with Cons.prems(1) show ?thesis by simp
  next
    case tl: (Cons b k')
    from Cons.prems(1) have \<open>escaped_after a (k @ CHR ''"'' # r)\<close>
      by simp
    then have "last k = CHR 0x5C"
      using Cons.IH [of a] tl by simp
    with tl show ?thesis by simp
  qed
qed

lemma no_field_in_body:
  assumes "plain k" and \<open>escaped_after (CHR ''"'') xs\<close> and "c0 \<noteq> CHR '':''"
  shows \<open>\<not> prefix (k @ CHR ''"'' # CHR '':'' # w) (xs @ CHR ''"'' # c0 # R)\<close>
proof
  assume \<open>prefix (k @ CHR ''"'' # CHR '':'' # w) (xs @ CHR ''"'' # c0 # R)\<close>
  then obtain z where \<open>xs @ CHR ''"'' # c0 # R = k @ CHR ''"'' # CHR '':'' # w @ z\<close>
    by (auto simp: prefix_def)
  then consider us where "xs = k @ us" \<open>us @ CHR ''"'' # c0 # R = CHR ''"'' # CHR '':'' # w @ z\<close>
    | us where "xs @ us = k" \<open>CHR ''"'' # c0 # R = us @ CHR ''"'' # CHR '':'' # w @ z\<close>
    by (auto simp: append_eq_append_conv2)
  then show False
  proof cases
    case 1
    show ?thesis
    proof (cases us)
      case Nil
      with 1 assms(3) show ?thesis by simp
    next
      case (Cons y us')
      with 1 have \<open>xs = k @ CHR ''"'' # us'\<close> by simp
      with assms(2) have "last k = CHR 0x5C"
        using assms(1) escaped_after_quote by (auto simp: plain_def)
      with assms(1) show ?thesis
        by (auto simp: plain_def dest: last_in_set)
    qed
  next
    case 2
    show ?thesis
    proof (cases us)
      case Nil
      with 2 assms(3) show ?thesis by simp
    next
      case (Cons y us')
      with 2 have \<open>CHR ''"'' \<in> set k\<close> by auto
      with assms(1) show ?thesis by (auto simp: plain_def)
    qed
  qed
qed

lemma skip_body:
  assumes "plain k" and "c0 \<noteq> CHR '':''"
  shows \<open>escaped_after p xs \<Longrightarrow>
         strstr (xs @ CHR ''"'' # c0 # R) (field_pattern k w) =
         strstr (CHR ''"'' # c0 # R) (field_pattern k w)\<close>
proof (induction xs arbitrary: p)
  case Nil
  then show ?case by simp
next
  case (Cons x xs)
  have \<open>\<not> prefix (field_pattern k w) (x # xs @ CHR ''"'' # c0 # R)\<close>
  proof (cases \<open>x = CHR ''"''\<close>)
    case True
    with Cons.prems have \<open>escaped_after (CHR ''"'') xs\<close> by simp
    from no_field_in_body [OF assms(1) this assms(2)] True show ?thesis
      by (simp add: field_pattern_def)
  next
    case False
    then show ?thesis by (simp add: field_pattern_def)
  qed
  moreover from Cons.prems have "escaped_after x xs" by simp
  ultimately show ?case
    using Cons.IH by simp
qed


lemma plain_hd:
  assumes "plain k"
  obtains k0 k' where "k = k0 # k'" "k0 \<noteq> CHR '':''" "k0 \<noteq> CHR '',''" "k0 \<noteq> CHR ''}''"
    \<open>CHR ''"'' \<notin> set k\<close>
  using assms by (cases k) (auto simp: plain_def)

lemma skip_member:
  assumes "plain k" and "flat_member (k1, v)" and "c0 = CHR '','' \<or> c0 = CHR ''}''"
      and "k1 \<noteq> k \<or> \<not> prefix w (value_text v @ c0 # R)"
  shows "strstr (member (k1, v) @ c0 # R) (field_pattern k w) = strstr R (field_pattern k w)"
proof -
  from assms(1) obtain k0 k' where k: "k = k0 # k'" "k0 \<noteq> CHR '':''" "k0 \<noteq> CHR '',''"
    "k0 \<noteq> CHR ''}''" and qk: \<open>CHR ''"'' \<notin> set k\<close>
    by (rule plain_hd)
  from assms(2) have qk1: \<open>CHR ''"'' \<notin> set k1\<close>
    by (simp add: flat_member_def)
  let ?P = "field_pattern k w"
  have P: \<open>?P = CHR ''"'' # k @ CHR ''"'' # CHR '':'' # w\<close>
    by (simp add: field_pattern_def)
  have noq: \<open>\<not> prefix ?P (x # r)\<close> if \<open>x \<noteq> CHR ''"''\<close> for x r
    using that by (simp add: field_pattern_def)
  have nohd: \<open>\<not> prefix ?P (CHR ''"'' # x # r)\<close> if "x \<noteq> k0" for x r
    using that by (simp add: field_pattern_def k(1))
  have c0: \<open>c0 \<noteq> CHR ''"''\<close> "c0 \<noteq> CHR '':''" "c0 \<noteq> k0"
    using assms(3) k by auto
  have tail: "strstr (c0 # R) ?P = strstr R ?P"
    using noq [OF c0(1)] by simp
  have key: "strstr (member (k1, v) @ c0 # R) ?P = strstr (value_text v @ c0 # R) ?P"
  proof -
    have "\<not> prefix ?P (member (k1, v) @ c0 # R)"
      using assms(4) prefix_token [OF qk qk1, of "CHR '':'' # w" "CHR '':'' # value_text v @ c0 # R"]
      by (auto simp: P member_def)
    then have "strstr (member (k1, v) @ c0 # R) ?P =
               strstr (k1 @ CHR 0x22 # CHR '':'' # value_text v @ c0 # R) ?P"
      by (simp add: member_def)
    also have "\<dots> = strstr (CHR 0x22 # CHR '':'' # value_text v @ c0 # R) ?P"
      unfolding P using qk1 by (rule strstr_skip)
    also have "\<dots> = strstr (CHR '':'' # value_text v @ c0 # R) ?P"
      using nohd [of "CHR '':''"] k(2) by simp
    also have "\<dots> = strstr (value_text v @ c0 # R) ?P"
      using noq [of "CHR '':''"] by simp
    finally show ?thesis .
  qed
  show ?thesis
  proof (cases v)
    case (Str s)
    with assms(2) have e: \<open>escaped_after (CHR ''"'') s\<close>
      by (simp add: flat_member_def string_body_def)
    have "strstr (value_text v @ c0 # R) ?P = strstr (CHR 0x22 # s @ CHR 0x22 # c0 # R) ?P"
      by (simp add: Str value_text_def)
    also have "\<dots> = strstr (s @ CHR 0x22 # c0 # R) ?P"
      using no_field_in_body [OF assms(1) e c0(2), of w R] by (simp add: P)
    also have "\<dots> = strstr (CHR 0x22 # c0 # R) ?P"
      using assms(1) c0(2) e by (rule skip_body)
    also have "\<dots> = strstr (c0 # R) ?P"
      using nohd [OF c0(3)] by simp
    finally show ?thesis
      using key tail by simp
  next
    case (Other t)
    with assms(2) have qt: \<open>CHR ''"'' \<notin> set t\<close>
      by (simp add: flat_member_def)
    have "strstr (value_text v @ c0 # R) ?P = strstr (t @ c0 # R) ?P"
      by (simp add: Other value_text_def)
    also have "\<dots> = strstr (c0 # R) ?P"
      unfolding P using qt by (rule strstr_skip)
    finally show ?thesis
      using key tail by simp
  qed
qed

lemma members_cons: "kvs \<noteq> [] \<Longrightarrow> members (kv # kvs) = member kv @ CHR '','' # members kvs"
  by (cases kvs) simp_all

lemma members_after: "members (kv # post) @ ''}'' = member kv @ after post"
  by (cases post) (simp_all add: after_def)

lemma after_cases:
  obtains "after post = [CHR ''}'']" "post = []"
  | "after post = CHR '','' # members post @ ''}''" "post \<noteq> []"
  by (cases post) (simp_all add: after_def)

lemma field_absent:
  assumes "plain k"
  shows "\<forall>kv \<in> set kvs. flat_member kv \<Longrightarrow> k \<notin> fst ` set kvs \<Longrightarrow>
         strstr (members kvs @ ''}'') (field_pattern k w) = None"
proof (induction kvs rule: members.induct)
  case 1
  show ?case by (simp add: field_pattern_def)
next
  case (2 kv)
  then have "strstr (member (fst kv, snd kv) @ CHR ''}'' # []) (field_pattern k w) =
             strstr [] (field_pattern k w)"
    using assms by (intro skip_member) auto
  then show ?case by (simp add: field_pattern_def)
next
  case (3 kv kv' kvs)
  then have "strstr (member (fst kv, snd kv) @ CHR '','' # (members (kv' # kvs) @ ''}''))
               (field_pattern k w) =
             strstr (members (kv' # kvs) @ ''}'') (field_pattern k w)"
    using assms by (intro skip_member) auto
  with 3 show ?case by simp
qed

lemma field_found:
  assumes "plain k" and "prefix w (value_text v @ after post)"
  shows "\<forall>kv \<in> set pre. flat_member kv \<Longrightarrow> k \<notin> fst ` set pre \<Longrightarrow>
         strstr (members (pre @ (k, v) # post) @ ''}'') (field_pattern k w) =
           Some (member (k, v) @ after post)"
proof (induction pre)
  case Nil
  have "prefix (field_pattern k w) (member (k, v) @ after post)"
    using assms(2) by (simp add: field_pattern_def member_def)
  moreover have "member (k, v) @ after post = CHR 0x22 # tl (member (k, v) @ after post)"
    by (simp add: member_def)
  ultimately show ?case
    by (metis append_Nil members_after strstr.simps(2))
next
  case (Cons kv pre)
  then have "strstr (member (fst kv, snd kv) @ CHR '','' # (members (pre @ (k, v) # post) @ ''}''))
               (field_pattern k w) =
             strstr (members (pre @ (k, v) # post) @ ''}'') (field_pattern k w)"
    using assms(1) by (intro skip_member) auto
  with Cons show ?case
    by (simp add: members_cons)
qed

lemma field_mismatch:
  assumes "plain k" and "\<not> prefix w (value_text v @ after post)"
      and "flat_member (k, v)" and "\<forall>kv \<in> set post. flat_member kv" and "k \<notin> fst ` set post"
  shows "\<forall>kv \<in> set pre. flat_member kv \<Longrightarrow> k \<notin> fst ` set pre \<Longrightarrow>
         strstr (members (pre @ (k, v) # post) @ ''}'') (field_pattern k w) = None"
proof (induction pre)
  case Nil
  show ?case
  proof (cases post rule: after_cases)
    case 1
    with assms have "strstr (member (k, v) @ CHR ''}'' # []) (field_pattern k w) =
                     strstr [] (field_pattern k w)"
      by (intro skip_member) auto
    with 1 show ?thesis
      by (simp add: field_pattern_def)
  next
    case 2
    with assms have "strstr (member (k, v) @ CHR '','' # (members post @ ''}'')) (field_pattern k w) =
                     strstr (members post @ ''}'') (field_pattern k w)"
      by (intro skip_member) auto
    with 2 field_absent [OF assms(1,4,5), of w] show ?thesis
      by (simp add: members_cons)
  qed
next
  case (Cons kv pre)
  then have "strstr (member (fst kv, snd kv) @ CHR '','' # (members (pre @ (k, v) # post) @ ''}''))
               (field_pattern k w) =
             strstr (members (pre @ (k, v) # post) @ ''}'') (field_pattern k w)"
    using assms(1) by (intro skip_member) auto
  with Cons show ?case
    by (simp add: members_cons)
qed

lemma member_split:
  assumes "distinct (map fst kvs)" and "map_of kvs k = Some v"
  obtains pre post where "kvs = pre @ (k, v) # post" "k \<notin> fst ` set pre" "k \<notin> fst ` set post"
proof -
  from assms(2) have "(k, v) \<in> set kvs"
    by (rule map_of_SomeD)
  then obtain pre post where s: "kvs = pre @ (k, v) # post"
    by (auto dest: split_list)
  with assms(1) have "k \<notin> fst ` set pre" "k \<notin> fst ` set post"
    by auto
  with s show ?thesis by (rule that)
qed


lemma member_nul: "flat_member kv \<Longrightarrow> CHR 0x00 \<notin> set (member kv)"
  by (cases "snd kv") (simp_all add: flat_member_def member_def value_text_def string_body_def)

lemma members_nul: "\<forall>kv \<in> set kvs. flat_member kv \<Longrightarrow> CHR 0x00 \<notin> set (members kvs)"
  by (induction kvs rule: members.induct) (simp_all add: member_nul)

lemma object_c_str: "\<forall>kv \<in> set kvs. flat_member kv \<Longrightarrow> c_str (object_msg kvs) = object_msg kvs"
  by (rule c_str_id) (simp add: object_msg_def members_nul)




lemma plain_keys:
  "plain ''type''" "plain ''username''" "plain ''file''" "plain ''content''" "plain ''position''"
  by (simp_all add: plain_def)

lemma object_strstr_quote:
  \<open>strstr (object_msg kvs) (CHR ''"'' # p) = strstr (members kvs @ ''}'') (CHR ''"'' # p)\<close>
  by (simp add: object_msg_def)


section \<open>Messages that lack a required field\<close>

lemma message_kind_text: "message_kind message = text_kind message"
  by (simp add: message_kind_def text_kind_def type_pattern_def strstr_sublist)

lemma lacking_message_ignored:
  "lacks_field_pattern message \<Longrightarrow> handle_message sock message cs = Inr (cs, [])"
  by (auto simp: lacks_field_pattern_def field_patterns_def handle_message_def
                 message_kind_text [symmetric] strstr_sublist [symmetric]
                 handle_join_def handle_content_change_def handle_cursor_move_def
                 handle_file_change_def
           split: option.splits kind.splits)

text \<open>
  For an object with flat members of distinct names the text decides what the schema
  says: the kind the handlers find is the kind its member \<open>type\<close> names, and when a
  name the kind requires is missing among the members, the pattern of that name
  occurs nowhere in the text.
\<close>

lemma type_occurs:
  assumes "distinct (map fst kvs)" and "\<forall>kv \<in> set kvs. flat_member kv"
      and "map_of kvs ''type'' = Some (Str v)"
      and \<open>CHR ''"'' \<notin> set t\<close> and \<open>CHR ''"'' \<notin> set v\<close>
  shows \<open>sublist (field_pattern ''type'' (CHR ''"'' # t @ ''"'')) (object_msg kvs) = (t = v)\<close>
proof -
  let ?w = \<open>CHR ''"'' # t @ ''"''\<close>
  from assms(1,3) obtain pre post
    where s: "kvs = pre @ (''type'', Str v) # post"
      "''type'' \<notin> fst ` set pre" "''type'' \<notin> fst ` set post"
    by (rule member_split)
  have p: "prefix ?w (value_text (Str v) @ after post) = (t = v)"
    using prefix_token [OF assms(4,5), of "[]" "after post"] by (simp add: value_text_def)
  have o: "strstr (object_msg kvs) (field_pattern ''type'' ?w) =
           strstr (members kvs @ ''}'') (field_pattern ''type'' ?w)"
    by (simp add: field_pattern_def object_strstr_quote)
  show ?thesis
  proof (cases "t = v")
    case True
    with p have "prefix ?w (value_text (Str v) @ after post)" by simp
    with plain_keys(1)
    have "strstr (members (pre @ (''type'', Str v) # post) @ ''}'') (field_pattern ''type'' ?w) =
            Some (member (''type'', Str v) @ after post)"
      using assms(2) s(2) unfolding s(1) by (intro field_found) auto
    with o True show ?thesis
      using strstr_sublist [of "object_msg kvs" "field_pattern ''type'' ?w"] by (simp add: s(1))
  next
    case False
    with p have "\<not> prefix ?w (value_text (Str v) @ after post)" by simp
    with plain_keys(1)
    have "strstr (members (pre @ (''type'', Str v) # post) @ ''}'') (field_pattern ''type'' ?w) = None"
      using assms(2) s(2,3) unfolding s(1) by (intro field_mismatch) auto
    with o False show ?thesis
      using strstr_sublist [of "object_msg kvs" "field_pattern ''type'' ?w"] by (simp add: s(1))
  qed
qed

lemma object_text_kind:
  assumes "distinct (map fst kvs)" and "\<forall>kv \<in> set kvs. flat_member kv"
      and "schema_kind kvs = Some k"
  shows "text_kind (object_msg kvs) = Some k"
proof -
  from assms(3) obtain v where v: "map_of kvs ''type'' = Some (Str v)" "kind_named v = Some k"
    by (auto simp: schema_kind_def split: option.splits jvalue.splits)
  from v(2) have q: \<open>CHR ''"'' \<notin> set v\<close>
    by (auto simp: kind_named_def split: if_splits)
  have t: \<open>sublist (type_pattern k') (object_msg kvs) =
           ((case k' of Join \<Rightarrow> ''join'' | Content_change \<Rightarrow> ''content_change''
             | Cursor_move \<Rightarrow> ''cursor_move'' | File_change \<Rightarrow> ''file_change'') = v)\<close> for k'
  proof (cases k')
    case Join
    with type_occurs [OF assms(1,2) v(1) _ q, of "''join''"] show ?thesis
      by (simp add: type_pattern_def field_pattern_def)
  next
    case Content_change
    with type_occurs [OF assms(1,2) v(1) _ q, of "''content_change''"] show ?thesis
      by (simp add: type_pattern_def field_pattern_def)
  next
    case Cursor_move
    with type_occurs [OF assms(1,2) v(1) _ q, of "''cursor_move''"] show ?thesis
      by (simp add: type_pattern_def field_pattern_def)
  next
    case File_change
    with type_occurs [OF assms(1,2) v(1) _ q, of "''file_change''"] show ?thesis
      by (simp add: type_pattern_def field_pattern_def)
  qed
  from v(2) show ?thesis
    by (auto simp: text_kind_def t kind_named_def split: if_splits)
qed

lemma name_absent:
  assumes "plain n" and "\<forall>kv \<in> set kvs. flat_member kv" and "n \<notin> fst ` set kvs"
  shows "\<not> sublist (field_pattern n w) (object_msg kvs)"
proof -
  have "strstr (object_msg kvs) (field_pattern n w) = strstr (members kvs @ ''}'') (field_pattern n w)"
    by (simp add: field_pattern_def object_strstr_quote)
  also have "\<dots> = None"
    using assms by (rule field_absent)
  finally show ?thesis
    by (simp add: strstr_sublist)
qed

lemma flat_object_lacking_field:
  assumes "distinct (map fst kvs)" and "\<forall>kv \<in> set kvs. flat_member kv"
      and "lacks_required_field kvs"
  shows "lacks_field_pattern (object_msg kvs)"
proof -
  from assms(3) obtain k n where k: "schema_kind kvs = Some k"
    and n: "n \<in> set (schema_fields k)" "n \<notin> fst ` set kvs"
    by (auto simp: lacks_required_field_def list_ex_iff split: option.splits)
  from assms(1,2) k have t: "text_kind (object_msg kvs) = Some k"
    by (rule object_text_kind)
  from n(1) have "plain n"
    by (cases k) (auto simp: schema_fields_def plain_keys)
  then have a: "\<not> sublist (field_pattern n w) (object_msg kvs)" for w
    using assms(2) n(2) by (rule name_absent)
  from n(1) have \<open>field_pattern n ''"'' \<in> set (field_patterns k) \<or>
                  field_pattern n [] \<in> set (field_patterns k)\<close>
    by (cases k) (auto simp: schema_fields_def field_patterns_def field_pattern_def)
  with a show ?thesis
    by (auto simp: lacks_field_pattern_def t list_ex_iff)
qed

lemma flat_cursor_move_text:
  \<open>object_msg flat_cursor_move = ''{"type":"cursor_move","position":7,"file":"notes.md"}''\<close>
  by (simp add: object_msg_def flat_cursor_move_def member_def value_text_def)

text \<open>
  Claim C5, as the code has it.  A message in whose text a pattern that its kind tests
  occurs nowhere is ignored as a whole: the handler returns the registry unchanged (so
  the user name, current file and cursor position of the session are as before)
  without locking or sending anything, and the loop iteration that decoded the message
  ends in \<^verbatim>\<open>continue\<close>.  The kind is the one the text decides (the first type pattern
  that occurs in it), and the message is the decoded payload up to its first NUL.
  Every object with flat members of distinct names that lacks a member its kind
  requires is such a message.
\<close>

theorem incomplete_message_is_ignored:
  "(lacks_field_pattern message \<longrightarrow>
      handle_message sock message cs = Inr (cs, []) \<and>
      (\<forall>buffer payload.
         ws_read_frame buffer = Inr (Some payload) \<and> c_str payload = message \<longrightarrow>
         loop_body sock (Some buffer) cs = Inr (Continue, cs, []))) \<and>
   (distinct (map fst kvs) \<and> (\<forall>kv \<in> set kvs. flat_member kv) \<and> lacks_required_field kvs \<longrightarrow>
      lacks_field_pattern (object_msg kvs) \<and>
      handle_message sock (object_msg kvs) cs = Inr (cs, []) \<and>
      (\<forall>buffer.
         ws_read_frame buffer = Inr (Some (object_msg kvs)) \<longrightarrow>
         loop_body sock (Some buffer) cs = Inr (Continue, cs, [])))"
proof -
  have l: "loop_body sock (Some buffer) cs = Inr (Continue, cs, [])"
    if "lacks_field_pattern m" "ws_read_frame buffer = Inr (Some payload)" "c_str payload = m"
    for m buffer payload
  proof -
    from that(2) have "buffer \<noteq> []"
      by (auto simp: ws_read_frame_def)
    with that lacking_message_ignored [of m sock cs] show ?thesis
      by (simp add: loop_body_def)
  qed
  have o: "lacks_field_pattern (object_msg kvs) \<and>
      handle_message sock (object_msg kvs) cs = Inr (cs, []) \<and>
      (\<forall>buffer.
         ws_read_frame buffer = Inr (Some (object_msg kvs)) \<longrightarrow>
         loop_body sock (Some buffer) cs = Inr (Continue, cs, []))"
    if d: "distinct (map fst kvs)" and f: "\<forall>kv \<in> set kvs. flat_member kv"
      and r: "lacks_required_field kvs"
  proof -
    from d f r have p: "lacks_field_pattern (object_msg kvs)"
      by (rule flat_object_lacking_field)
    from f have "c_str (object_msg kvs) = object_msg kvs"
      by (rule object_c_str)
    with p l [of "object_msg kvs"] lacking_message_ignored [of "object_msg kvs" sock cs]
    show ?thesis by blast
  qed
  from l o lacking_message_ignored [of message sock cs] show ?thesis
    by blast
qed

theorem incomplete_message_is_ignored_witness:
  \<open>lacks_field_pattern ''{"type":"cursor_move","position":7,"file":"notes.md"}'' \<and>
   handle_message 4 ''{"type":"cursor_move","position":7,"file":"notes.md"}'' abc_registry =
     Inr (abc_registry, []) \<and>
   (\<exists>buffer. ws_read_frame buffer =
                Inr (Some ''{"type":"cursor_move","position":7,"file":"notes.md"}'') \<and>
              loop_body 4 (Some buffer) abc_registry = Inr (Continue, abc_registry, [])) \<and>
   distinct (map fst flat_cursor_move) \<and> list_all flat_member flat_cursor_move \<and>
   lacks_required_field flat_cursor_move \<and>
   object_msg flat_cursor_move = ''{"type":"cursor_move","position":7,"file":"notes.md"}''\<close>
proof -
  let ?m = \<open>''{"type":"cursor_move","position":7,"file":"notes.md"}''\<close>
  have 1: "distinct (map fst flat_cursor_move)"
    by (simp add: flat_cursor_move_def)
  have 2: "list_all flat_member flat_cursor_move"
    by (simp add: flat_cursor_move_def flat_member_def string_body_def)
  have 3: "lacks_required_field flat_cursor_move"
    by (simp add: lacks_required_field_def schema_kind_def kind_named_def schema_fields_def
          flat_cursor_move_def)
  from 2 have f: "\<forall>kv \<in> set flat_cursor_move. flat_member kv"
    by (simp add: list_all_iff)
  obtain fr where fr: "ws_read_frame fr = Inr (Some ?m)"
    using ws_roundtrip [of ?m] by auto
  have c: "c_str ?m = ?m"
    by (simp add: c_str_def)
  from incomplete_message_is_ignored [of ?m 4 abc_registry flat_cursor_move] 1 f 3
  have p: "lacks_field_pattern ?m" and h: "handle_message 4 ?m abc_registry = Inr (abc_registry, [])"
    by (simp_all add: flat_cursor_move_text)
  from incomplete_message_is_ignored [of ?m 4 abc_registry flat_cursor_move] p fr c
  have "loop_body 4 (Some fr) abc_registry = Inr (Continue, abc_registry, [])"
    by blast
  with p h fr 1 2 3 flat_cursor_move_text show ?thesis
    by blast
qed

lemma nested_cursor_move_text:
  \<open>object_msg nested_cursor_move =
     ''{"type":"cursor_move","position":7,"file":"notes.md","meta":{"username":"Eve"}}''\<close>
  by (simp add: object_msg_def nested_cursor_move_def member_def value_text_def)

lemma nested_join_text:
  \<open>object_msg nested_join = ''{"type":"file_change","meta":{"type":"join","username":"Eve"}}''\<close>
  by (simp add: object_msg_def nested_join_def member_def value_text_def)

text \<open>
  Claim C5, as stated, fails.  The cursor\_move object has no member \<open>username\<close>, but
  the nested object of its member \<open>meta\<close> has one: the handler finds the pattern there,
  writes cursor position, current file and user name of A and broadcasts a
  cursor\_update to C and B.  The file\_change object has no member \<open>file\<close>, but its
  nested object has a member \<open>type\<close> of value join: the message is handled as a join
  and the user name of A is overwritten.
\<close>

theorem nested_field_counterexample:
  \<open>lacks_required_field nested_cursor_move \<and>
   object_msg nested_cursor_move =
     ''{"type":"cursor_move","position":7,"file":"notes.md","meta":{"username":"Eve"}}'' \<and>
   handle_message 4 (object_msg nested_cursor_move) abc_registry =
     Inr ([session 6 ''C'' 2, session 5 ''B'' 1,
           (session 4 ''A'' 0)\<lparr>cursor_pos := 7, current_file := ''notes.md'', username := ''Eve''\<rparr>],
          [Lock_client 4, Unlock_client 4,
           Lock_clients_mutex,
           Lock_client 6,
           Send 6 ([0x81, 90] @ map byte_of_char
             ''{"type":"cursor_update","username":"Eve","position":7,"color":"#FF6B6B","file":"notes.md"}''),
           Unlock_client 6,
           Lock_client 5,
           Send 5 ([0x81, 90] @ map byte_of_char
             ''{"type":"cursor_update","username":"Eve","position":7,"color":"#FF6B6B","file":"notes.md"}''),
           Unlock_client 5,
           Unlock_clients_mutex]) \<and>
   lacks_required_field nested_join \<and>
   object_msg nested_join = ''{"type":"file_change","meta":{"type":"join","username":"Eve"}}'' \<and>
   handle_message 4 (object_msg nested_join) abc_registry =
     Inr ([session 6 ''C'' 2, session 5 ''B'' 1, (session 4 ''A'' 0)\<lparr>username := ''Eve''\<rparr>],
          [Lock_client 4, Unlock_client 4])\<close>
proof -
  let ?t = \<open>''{"type":"cursor_update","username":"Eve","position":7,"color":"#FF6B6B","file":"notes.md"}''\<close>
  let ?cs = "[session 6 ''C'' 2, session 5 ''B'' 1,
           (session 4 ''A'' 0)\<lparr>cursor_pos := 7, current_file := ''notes.md'', username := ''Eve''\<rparr>]"
  have 1: "lacks_required_field nested_cursor_move"
    by (simp add: lacks_required_field_def schema_kind_def kind_named_def schema_fields_def
          nested_cursor_move_def)
  have 2: "lacks_required_field nested_join"
    by (simp add: lacks_required_field_def schema_kind_def kind_named_def schema_fields_def
          nested_join_def)
  have k1: "message_kind (object_msg nested_cursor_move) = Some Cursor_move"
    by (simp add: nested_cursor_move_text message_kind_def)
  have k2: "message_kind (object_msg nested_join) = Some Join"
    by (simp add: nested_join_text message_kind_def)
  have a: \<open>atoi ''7,"file":"notes.md","meta":{"username":"Eve"}}'' = 7\<close>
    by (simp add: atoi_def isspace_def isdigit_def Let_def)
  have "char_of (55 :: nat) = CHR ''7''"
    by code_simp
  then have s7: "show_int 7 = ''7''"
    by (simp add: show_int_def show_nat.simps)
  have f: "ws_frame ?t = Inr ([0x81, 90] @ map byte_of_char ?t)"
    using short_frame [of ?t] by simp
  have b: "broadcast_message ?t 4 ?cs =
     Inr [Lock_clients_mutex, Lock_client 6, Send 6 ([0x81, 90] @ map byte_of_char ?t), Unlock_client 6,
          Lock_client 5, Send 5 ([0x81, 90] @ map byte_of_char ?t), Unlock_client 5,
          Unlock_clients_mutex]"
    by (simp add: broadcast_message_def ws_send_frame_def f session_def is_target_def)
  have st: "store_client 4 (\<lambda>c. c\<lparr>cursor_pos := 7, current_file := ''notes.md'', username := ''Eve''\<rparr>)
              abc_registry = Inr (?cs, [Lock_client 4, Unlock_client 4])"
    by (simp add: store_client_def update_client_def abc_registry_def session_def)
  have ld: "load_client 4 ?cs =
              Inr ((session 4 ''A'' 0)\<lparr>cursor_pos := 7, current_file := ''notes.md'', username := ''Eve''\<rparr>)"
    by (simp add: load_client_def session_def)
  have cm: "snprintf 512 ?t = ?t"
    by (simp add: snprintf_def)
  have 3: "handle_cursor_move 4 (object_msg nested_cursor_move) abc_registry =
             Inr (?cs, [Lock_client 4, Unlock_client 4] @
               [Lock_clients_mutex, Lock_client 6, Send 6 ([0x81, 90] @ map byte_of_char ?t), Unlock_client 6,
                Lock_client 5, Send 5 ([0x81, 90] @ map byte_of_char ?t), Unlock_client 5,
                Unlock_clients_mutex])"
    using b cm st ld
    by (simp add: handle_cursor_move_def nested_cursor_move_text a copy_field_def copy_until_def
          s7 abc_registry_def session_def colors_def Let_def)
  have 4: "handle_join 4 (object_msg nested_join) abc_registry =
             Inr ([session 6 ''C'' 2, session 5 ''B'' 1, (session 4 ''A'' 0)\<lparr>username := ''Eve''\<rparr>],
                  [Lock_client 4, Unlock_client 4])"
    by (simp add: handle_join_def nested_join_text copy_until_def store_client_def update_client_def
          abc_registry_def session_def Let_def)
  from 3 k1 have h1: "handle_message 4 (object_msg nested_cursor_move) abc_registry =
             Inr (?cs, [Lock_client 4, Unlock_client 4] @
               [Lock_clients_mutex, Lock_client 6, Send 6 ([0x81, 90] @ map byte_of_char ?t), Unlock_client 6,
                Lock_client 5, Send 5 ([0x81, 90] @ map byte_of_char ?t), Unlock_client 5,
                Unlock_clients_mutex])"
    by (simp add: handle_message_def)
  from 4 k2 have h2: "handle_message 4 (object_msg nested_join) abc_registry =
             Inr ([session 6 ''C'' 2, session 5 ''B'' 1, (session 4 ''A'' 0)\<lparr>username := ''Eve''\<rparr>],
                  [Lock_client 4, Unlock_client 4])"
    by (simp add: handle_message_def)
  from h1 have h1': "handle_message 4 (object_msg nested_cursor_move) abc_registry =
             Inr (?cs,
               [Lock_client 4, Unlock_client 4,
                Lock_clients_mutex, Lock_client 6, Send 6 ([0x81, 90] @ map byte_of_char ?t), Unlock_client 6,
                Lock_client 5, Send 5 ([0x81, 90] @ map byte_of_char ?t), Unlock_client 5,
                Unlock_clients_mutex])"
    by (simp only: append.simps)
  from 1 nested_cursor_move_text h1' 2 nested_join_text h2 show ?thesis
    by (intro conjI)
qed

section \<open>The content\_change relay\<close>











section \<open>Field values and the arrays that receive them\<close>

lemma find_registered:
  "sock \<in> socket ` set cs \<Longrightarrow> \<exists>c. find (\<lambda>c. socket c = sock) cs = Some c"
  by (induction cs) auto

lemma store_client_registered:
  "sock \<in> socket ` set cs \<Longrightarrow>
   store_client sock f cs = Inr (update_client sock f cs, [Lock_client sock, Unlock_client sock])"
  using find_registered [of sock cs] by (auto simp: store_client_def)

lemma current_file_update_id: "update_client sock (current_file_update (\<lambda>x. x)) cs = cs"
  by (simp add: update_client_def map_idI)

text \<open>
  A file\_change message that is handled with defined behaviour changes nothing but the
  \<open>current_file\<close> field of the session that sent it and sends nothing; and the
  handling is defined, with the file stored, when the file value ends at a double
  quote after fewer than 256 bytes and the session is registered.
\<close>

lemma file_change_within_bounds:
  assumes "message_kind message = Some File_change"
  shows "(\<forall>cs' ev. handle_message sock message cs = Inr (cs', ev) \<longrightarrow>
            sends ev = [] \<and>
            (\<exists>g. cs' = update_client sock (current_file_update g) cs) \<and>
            map socket cs' = map socket cs \<and> map username cs' = map username cs \<and>
            map cursor_pos cs' = map cursor_pos cs \<and> map color cs' = map color cs \<and>
            map active cs' = map active cs) \<and>
         (\<forall>p f rest. strstr message ''\"file\":\"'' = Some p \<and> drop 8 p = f @ CHR ''\"'' # rest \<and>
            CHR ''\"'' \<notin> set f \<and> length f < 256 \<and> sock \<in> socket ` set cs \<longrightarrow>
            handle_message sock message cs =
              Inr (update_client sock (\<lambda>c. c\<lparr>current_file := f\<rparr>) cs,
                   [Lock_client sock, Unlock_client sock]))"
proof -
  have k: "handle_message sock message cs = handle_file_change sock message cs"
    using assms by (simp add: handle_message_def)
  have a: "sends ev = [] \<and> (\<exists>g. cs' = update_client sock (current_file_update g) cs) \<and>
            map socket cs' = map socket cs \<and> map username cs' = map username cs \<and>
            map cursor_pos cs' = map cursor_pos cs \<and> map color cs' = map color cs \<and>
            map active cs' = map active cs"
    if h: "handle_file_change sock message cs = Inr (cs', ev)" for cs' ev
  proof -
    have "sends ev = [] \<and> (\<exists>g. cs' = update_client sock (current_file_update g) cs)"
    proof (cases "strstr message ''\"file\":\"''")
      case None
      with h have "cs' = cs" "ev = []"
        by (simp_all add: handle_file_change_def)
      then show ?thesis
        using current_file_update_id [of sock cs] by (metis sends.simps(1))
    next
      case (Some p)
      with h obtain f where "store_client sock (\<lambda>c. c\<lparr>current_file := f\<rparr>) cs = Inr (cs', ev)"
        by (auto simp: handle_file_change_def split: sum.splits)
      then have "cs' = update_client sock (current_file_update (\<lambda>_. f)) cs"
        and "ev = [Lock_client sock, Unlock_client sock]"
        by (auto simp: store_client_def split: option.splits)
      then show ?thesis by auto
    qed
    then obtain g where g: "cs' = update_client sock (current_file_update g) cs"
      and s: "sends ev = []"
      by blast
    from g have "map socket cs' = map socket cs" "map username cs' = map username cs"
      "map cursor_pos cs' = map cursor_pos cs" "map color cs' = map color cs"
      "map active cs' = map active cs"
      by (simp_all add: update_client_def)
    with g s show ?thesis by blast
  qed
  have b: "handle_file_change sock message cs =
             Inr (update_client sock (\<lambda>c. c\<lparr>current_file := f\<rparr>) cs,
                  [Lock_client sock, Unlock_client sock])"
    if "strstr message ''\"file\":\"'' = Some p" "drop 8 p = f @ CHR ''\"'' # rest"
      "CHR ''\"'' \<notin> set f" "length f < 256" "sock \<in> socket ` set cs" for p f rest
    using that by (simp add: handle_file_change_def copy_field_token store_client_registered)
  from a b show ?thesis
    unfolding k by blast
qed

lemma token_content_change:
  \<open>CHR ''"'' \<notin> set u \<Longrightarrow>
   prefix ''type":"content_change"'' (u @ CHR ''"'' # r) =
     (u = ''type'' \<and> prefix '':"content_change"'' r)\<close>
  using prefix_token [of \<open>CHR ''"''\<close> "''type''" u \<open>'':"content_change"''\<close> r] by auto

lemma token_cursor_move:
  \<open>CHR ''"'' \<notin> set u \<Longrightarrow>
   prefix ''type":"cursor_move"'' (u @ CHR ''"'' # r) =
     (u = ''type'' \<and> prefix '':"cursor_move"'' r)\<close>
  using prefix_token [of \<open>CHR ''"''\<close> "''type''" u \<open>'':"cursor_move"''\<close> r] by auto

lemma file_change_kind:
  \<open>CHR ''"'' \<notin> set f \<Longrightarrow> message_kind (file_change_msg f) = Some File_change\<close>
  by (simp add: message_kind_def file_change_msg_def token_join token_content_change
        token_cursor_move strstr_skip)

lemma file_change_file:
  \<open>strstr (file_change_msg f) ''"file":"'' = Some (''"file":"'' @ f @ ''"}'')\<close>
  by (simp add: file_change_msg_def)

lemma file_change_stores_file:
  \<open>CHR ''"'' \<notin> set f \<Longrightarrow> length f < 256 \<Longrightarrow> sock \<in> socket ` set cs \<Longrightarrow>
   handle_message sock (file_change_msg f) cs =
     Inr (update_client sock (\<lambda>c. c\<lparr>current_file := f\<rparr>) cs, [Lock_client sock, Unlock_client sock])\<close>
  by (simp add: handle_message_def file_change_kind handle_file_change_def file_change_file
        copy_field_token store_client_registered)

lemma copy_field_long:
  \<open>CHR ''"'' \<notin> set f \<Longrightarrow> cap \<le> length f \<Longrightarrow>
   copy_field cap (f @ CHR ''"'' # r) = Inl Buffer_overrun\<close>
  by (simp add: copy_field_def strchr_skip copy_until_def)

text \<open>
  The handlers copy a field value into its array with \<^verbatim>\<open>strncpy\<close> bounded by the
  length of the value, not by the size of the array, and write the terminator behind
  it.  A file value of 256 bytes or more runs over \<^verbatim>\<open>current_file[256]\<close>.
\<close>

lemma long_file_name_overruns:
  \<open>CHR ''"'' \<notin> set f \<Longrightarrow> 256 \<le> length f \<Longrightarrow>
   handle_message sock (file_change_msg f) cs = Inl Buffer_overrun\<close>
  by (simp add: handle_message_def file_change_kind handle_file_change_def file_change_file
        copy_field_long)

text \<open>
  Claim C8.  The claim that a file\_change message updates only the current file does
  not hold for a file value of 270 bytes sent by session A: the copy leaves the array
  \<^verbatim>\<open>current_file\<close>, whose neighbours in \<^verbatim>\<open>struct Client\<close> are \<^verbatim>\<open>cursor_pos\<close> and
  \<^verbatim>\<open>color\<close>.
\<close>

theorem file_change_270_bytes_overruns:
  "handle_message 4 (file_change_msg (replicate 270 (CHR ''a''))) abc_registry = Inl Buffer_overrun"
  by (rule long_file_name_overruns) simp_all

text \<open>
  Claim C9.  The claim that no processed operation modifies the colour does not hold
  for a file\_change with a file value of 261 bytes: \<^verbatim>\<open>color\<close> starts 260 bytes
  after the start of \<^verbatim>\<open>current_file\<close> (256 bytes of the array and 4 of
  \<^verbatim>\<open>cursor_pos\<close>), so the copy of 261 bytes and its terminator end inside it.  The
  loop iteration of session A receives the message in an unmasked text frame with the
  16-bit length 293.
\<close>

theorem file_change_261_bytes_overruns:
  "loop_body 4
     (Some ([0x81, 0x7E, 0x01, 0x25] @ map byte_of_char (file_change_msg (replicate 261 (CHR ''a'')))))
     abc_registry = Inl Buffer_overrun"
proof -
  let ?m = "file_change_msg (replicate 261 (CHR ''a''))"
  have l: "length ?m = 293"
    by (simp add: file_change_msg_def)
  have hd: "ws_frame_header 293 = [0x81, 0x7E, 0x01, 0x25]"
    by (simp add: ws_frame_header_def)
  have "ws_frame ?m = Inr ([0x81, 0x7E, 0x01, 0x25] @ map byte_of_char ?m)"
    using ws_frame_fits [of ?m] by (simp add: l hd)
  moreover have "\<exists>fr. ws_frame ?m = Inr fr \<and> ws_read_frame fr = Inr (Some ?m)"
    by (rule ws_roundtrip) (simp add: l)
  ultimately have r: "ws_read_frame ([0x81, 0x7E, 0x01, 0x25] @ map byte_of_char ?m) = Inr (Some ?m)"
    by auto
  have c: "c_str ?m = ?m"
    by (simp add: c_str_def file_change_msg_def takeWhile_eq_all_conv)
  have h: "handle_message 4 ?m abc_registry = Inl Buffer_overrun"
    by (rule long_file_name_overruns) simp_all
  from r have r': "ws_read_frame (0x81 # 0x7E # 0x01 # 0x25 # map byte_of_char ?m) = Inr (Some ?m)"
    by simp
  show ?thesis
    by (simp add: loop_body_def r' c h)
qed

text \<open>
  Claim C10.  The claim that no operation clears the liveness flag does not hold for
  a file\_change with a file value of 276 bytes: \<^verbatim>\<open>active\<close> starts 276 bytes after
  the start of \<^verbatim>\<open>current_file\<close> (256 bytes of the array, 4 of \<^verbatim>\<open>cursor_pos\<close> and
  16 of \<^verbatim>\<open>color\<close>), which is where the terminator of the copy is written.
\<close>

theorem file_change_276_bytes_overruns:
  "handle_message 5 (file_change_msg (replicate 276 (CHR ''a''))) abc_registry = Inl Buffer_overrun \<and>
   handle_message 5 (file_change_msg (replicate 255 (CHR ''a''))) abc_registry =
     Inr (update_client 5 (\<lambda>c. c\<lparr>current_file := replicate 255 (CHR ''a'')\<rparr>) abc_registry,
          [Lock_client 5, Unlock_client 5])"
proof -
  have "handle_message 5 (file_change_msg (replicate 276 (CHR ''a''))) abc_registry = Inl Buffer_overrun"
    by (rule long_file_name_overruns) simp_all
  moreover
  have "handle_message 5 (file_change_msg (replicate 255 (CHR ''a''))) abc_registry =
     Inr (update_client 5 (\<lambda>c. c\<lparr>current_file := replicate 255 (CHR ''a'')\<rparr>) abc_registry,
          [Lock_client 5, Unlock_client 5])"
    by (rule file_change_stores_file) (simp_all add: abc_registry_def session_def)
  ultimately show ?thesis by simp
qed

end
